theory Spec2Isabelle
  imports Complex_Main
begin

section \<open>The weighted finite-state machine of \<^verbatim>\<open>fsm.py\<close>\<close>

text \<open>
  A shallow embedding of \<^verbatim>\<open>src/fsm.py\<close>: the classes \<^verbatim>\<open>Command\<close>, \<^verbatim>\<open>State\<close> and
  \<^verbatim>\<open>DFA\<close>. Python objects that are mutated and shared (the \<^verbatim>\<open>DFA\<close> instance and the
  \<^verbatim>\<open>State\<close> instances it registers) live in an explicit store; every \<^verbatim>\<open>raise\<close> is a
  value of the type \<open>error\<close>, and a function that can raise returns the store as it is
  at the moment of the raise, since Python keeps the mutations made before an exception.

  Numbers: Python's unbounded integers are \<open>int\<close>. The weights, their sums, the random
  draws and the clock readings are machine floats in the source. Their type is the
  parameter \<open>'a\<close> of the model: the numbers other than NaN, with their order, their \<open>0\<close>
  and the machine's own \<open>+\<close>, \<open>-\<close> and \<open>*\<close> (rounding and overflowing to infinity as the
  machine does). The definitions use the order and these operations and nothing else;
  no law of arithmetic is assumed of them, and a theorem that needs one has it among
  its hypotheses. A theorem or an example stated at the type \<open>real\<close> computes in exact
  arithmetic.
\<close>

subsection \<open>Values, errors, classes and objects\<close>

datatype error =
    ValueError
  | KeyError
  | AttributeError
  | NotImplementedError
  | NotInitializedError  \<comment> \<open>\<^verbatim>\<open>class NotInitializedError(ValueError)\<close>\<close>
  | DoesNotFound         \<comment> \<open>\<^verbatim>\<open>class State.DoesNotFound(ValueError)\<close>\<close>
  | UserError string     \<comment> \<open>anything raised by a user's hook or command\<close>

text \<open>The accumulator handed from command to command is opaque to the engine.\<close>

datatype pyval = PNone | PInt int | PStr string

type_synonym kwargs = "(string \<times> pyval) list"
type_synonym addr = nat
type_synonym class_id = nat

text \<open>
  A class passed where a \<^verbatim>\<open>Command\<close> class is expected: its \<^verbatim>\<open>__name__\<close>, whether
  \<^verbatim>\<open>issubclass(a, Command)\<close> holds, its \<^verbatim>\<open>execute\<close> method, and its \<^verbatim>\<open>do\<close> method when
  the class has such an attribute. The base class defines \<^verbatim>\<open>execute\<close> (raising
  \<^verbatim>\<open>NotImplementedError\<close>) and no \<^verbatim>\<open>do\<close>.
\<close>

record cmd_class =
  cc_name :: string
  cc_is_command :: bool
  cc_execute :: "pyval \<Rightarrow> error + pyval"
  cc_do :: "(pyval \<Rightarrow> error + pyval) option"

definition Command_execute :: "pyval \<Rightarrow> error + pyval" where
  "Command_execute params = Inl NotImplementedError"

text \<open>
  A \<^verbatim>\<open>Command\<close> instance: \<^verbatim>\<open>__init__\<close> makes the keyword arguments its \<^verbatim>\<open>__dict__\<close>;
  the attribute \<^verbatim>\<open>weight\<close> exists once \<^verbatim>\<open>_set_weight\<close> has assigned it.
\<close>

record 'a command =
  co_class :: cmd_class
  co_dict :: kwargs
  co_weight :: "'a option"

definition Command_init :: "cmd_class \<Rightarrow> kwargs \<Rightarrow> 'a command" where
  "Command_init a kwargv = \<lparr>co_class = a, co_dict = kwargv, co_weight = None\<rparr>"

text \<open>
  A \<^verbatim>\<open>State\<close> instance. Its class is kept by identifier; the class itself (name, weight
  table, hooks) is looked up in the class table given to the engine.
\<close>

record 'a state_obj =
  so_class :: class_id
  commands :: "string \<rightharpoonup> 'a command"
  cmd_params :: kwargs
  weight_sum :: 'a

definition State_init :: "class_id \<Rightarrow> kwargs \<Rightarrow> 'a::zero state_obj" where
  "State_init c kwargv =
     \<lparr>so_class = c, commands = Map.empty, cmd_params = kwargv, weight_sum = 0\<rparr>"

text \<open>
  The store: the fields of the one \<^verbatim>\<open>DFA\<close> instance and the \<^verbatim>\<open>State\<close> instances, by
  address. \<open>states\<close> and \<open>state\<close> hold references (addresses), as in Python.
\<close>

record 'a store =
  nexec :: "int option"
  duration :: "'a option"
  state_params :: kwargs
  states :: "string \<rightharpoonup> addr"
  state :: "addr option"
  state_ret :: pyval
  heap :: "'a state_obj list"

definition DFA_init :: "int option \<Rightarrow> 'a option \<Rightarrow> kwargs \<Rightarrow> 'a store" where
  "DFA_init n d kwargv =
     \<lparr>nexec = n, duration = d, state_params = kwargv, states = Map.empty,
      state = None, state_ret = PNone, heap = []\<rparr>"

text \<open>
  A class passed where a \<^verbatim>\<open>State\<close> class is expected: its \<^verbatim>\<open>__name__\<close>, whether
  \<^verbatim>\<open>issubclass(state, State)\<close> holds, its class attribute \<^verbatim>\<open>weight\<close> (a dict, given as
  the list of its items in iteration order, so the keys are distinct), and the methods
  the subclass defines, by attribute name (\<^verbatim>\<open>before_c2\<close>, \<^verbatim>\<open>after_c2\<close>, ...). A method
  receives \<^verbatim>\<open>self\<close> (an address) and may do anything to the store, \<^verbatim>\<open>self.dfa\<close> included.
\<close>

record 'a state_class =
  sc_name :: string
  sc_is_state :: bool
  sc_weight :: "(string \<times> 'a) list"
  sc_attrs :: "string \<rightharpoonup> (addr \<Rightarrow> 'a store \<Rightarrow> (error + unit) \<times> 'a store)"

type_synonym 'a classes = "class_id \<Rightarrow> 'a state_class"

subsection \<open>Names\<close>

text \<open>\<^verbatim>\<open>str.lower()\<close> on a byte string: the letters A to Z become a to z.\<close>

definition lower_char :: "char \<Rightarrow> char" where
  "lower_char c =
     (case map_of (zip ''ABCDEFGHIJKLMNOPQRSTUVWXYZ'' ''abcdefghijklmnopqrstuvwxyz'') c of
        None \<Rightarrow> c
      | Some d \<Rightarrow> d)"

definition lower :: "string \<Rightarrow> string" where
  "lower s = map lower_char s"

subsection \<open>\<^verbatim>\<open>State\<close>\<close>

text \<open>
  \<^verbatim>\<open>_set_weight\<close>: the loop over the weight table, after \<^verbatim>\<open>self._weight_sum = 0\<close>.
\<close>

fun set_weight_loop ::
  "(string \<times> 'a::plus) list \<Rightarrow> 'a state_obj \<Rightarrow> (error + unit) \<times> 'a state_obj" where
  "set_weight_loop [] so = (Inr (), so)"
| "set_weight_loop ((wname, wt) # rest) so =
     (case commands so wname of
        None \<Rightarrow> (Inl ValueError, so)
      | Some c \<Rightarrow>
          set_weight_loop rest
            (so\<lparr>weight_sum := weight_sum so + wt,
                commands := (commands so)(wname \<mapsto> c\<lparr>co_weight := Some wt\<rparr>)\<rparr>))"

definition set_weight ::
  "'a::{zero,plus} state_class \<Rightarrow> 'a state_obj \<Rightarrow> (error + unit) \<times> 'a state_obj" where
  "set_weight cls so = set_weight_loop (sc_weight cls) (so\<lparr>weight_sum := 0\<rparr>)"

text \<open>\<^verbatim>\<open>_import_commands\<close>: the loop over \<^verbatim>\<open>argv\<close>, then \<^verbatim>\<open>_set_weight\<close>.\<close>

fun import_loop :: "cmd_class list \<Rightarrow> 'a state_obj \<Rightarrow> (error + unit) \<times> 'a state_obj" where
  "import_loop [] so = (Inr (), so)"
| "import_loop (a # argv) so =
     (if \<not> cc_is_command a then (Inl KeyError, so)
      else import_loop argv
             (so\<lparr>commands := (commands so)(lower (cc_name a) \<mapsto> Command_init a (cmd_params so))\<rparr>))"

definition import_commands ::
  "'a::{zero,plus} state_class \<Rightarrow> cmd_class list \<Rightarrow> 'a state_obj
     \<Rightarrow> (error + unit) \<times> 'a state_obj" where
  "import_commands cls argv so =
     (case import_loop argv so of
        (Inl e, so') \<Rightarrow> (Inl e, so')
      | (Inr u, so') \<Rightarrow> set_weight cls so')"

text \<open>
  \<^verbatim>\<open>switch_state_to\<close>: acts on \<^verbatim>\<open>self.dfa\<close> only.
\<close>

definition switch_state_to :: "string \<Rightarrow> 'a store \<Rightarrow> (error + unit) \<times> 'a store" where
  "switch_state_to name w =
     (if states w name = None then (Inl DoesNotFound, w)
      else (Inr (), w\<lparr>state := states w name\<rparr>))"

text \<open>
  \<^verbatim>\<open>choose\<close>: \<open>r\<close> is the value of \<^verbatim>\<open>random.random()\<close>. The loop carries the draw \<open>a\<close> and
  the running sum \<open>summ\<close>; \<^verbatim>\<open>self.commands[wname]\<close> raises \<^verbatim>\<open>KeyError\<close> for a missing name and
  \<^verbatim>\<open>.weight\<close> raises \<^verbatim>\<open>AttributeError\<close> on a command whose weight was never set.
\<close>

fun choose_loop ::
  "'a::{ord,plus} \<Rightarrow> 'a \<Rightarrow> string list \<Rightarrow> (string \<rightharpoonup> 'a command) \<Rightarrow> error + string" where
  "choose_loop a summ [] cmds = Inl ValueError"
| "choose_loop a summ (wname # rest) cmds =
     (case cmds wname of
        None \<Rightarrow> Inl KeyError
      | Some c \<Rightarrow>
          (case co_weight c of
             None \<Rightarrow> Inl AttributeError
           | Some wt \<Rightarrow>
               if a \<ge> summ \<and> a < summ + wt then Inr wname
               else choose_loop a (summ + wt) rest cmds))"

definition State_choose ::
  "'a::{ord,zero,plus,times} state_class \<Rightarrow> 'a state_obj \<Rightarrow> 'a \<Rightarrow> error + string" where
  "State_choose cls so r =
     choose_loop (r * weight_sum so) 0 (map fst (sc_weight cls)) (commands so)"

text \<open>
  The value of the variable \<^verbatim>\<open>sum\<close> of \<^verbatim>\<open>choose\<close> when its loop reaches entry \<open>i\<close> of the
  weight table, the lower end of that entry's interval: \<open>0\<close>, then each weight added in
  turn, in the order and with the \<open>+\<close> of the loop (\<open>((0 + w0) + w1) + ...\<close>).
\<close>

definition running_sum :: "(string \<times> 'a::{zero,plus}) list \<Rightarrow> nat \<Rightarrow> 'a" where
  "running_sum tbl i = foldl (+) 0 (map snd (take i tbl))"

subsection \<open>\<^verbatim>\<open>DFA\<close>\<close>

text \<open>
  \<^verbatim>\<open>add_state\<close>: the new instance gets the next free address. The instance is registered
  before its commands are imported, so it stays registered when the import raises.
  The keyword argument \<^verbatim>\<open>is_start\<close> defaults to \<^verbatim>\<open>False\<close>.
\<close>

definition add_state ::
  "'a::{zero,plus} classes \<Rightarrow> class_id \<Rightarrow> cmd_class list \<Rightarrow> bool \<Rightarrow> 'a store
     \<Rightarrow> (error + unit) \<times> 'a store" where
  "add_state \<Gamma> c cmds is_start w =
     (if \<not> sc_is_state (\<Gamma> c) then (Inl ValueError, w)
      else
        let sname = lower (sc_name (\<Gamma> c));
            a = length (heap w);
            w1 = w\<lparr>heap := heap w @ [State_init c (state_params w)],
                   states := (states w)(sname \<mapsto> a)\<rparr>
        in (case import_commands (\<Gamma> c) cmds (heap w1 ! a) of
              (Inl e, so') \<Rightarrow> (Inl e, w1\<lparr>heap := (heap w1)[a := so']\<rparr>)
            | (Inr u, so') \<Rightarrow>
                let w2 = w1\<lparr>heap := (heap w1)[a := so']\<rparr>
                in (Inr (), if is_start then w2\<lparr>state := states w2 sname\<rparr> else w2)))"

text \<open>
  What the engine is seen to do in one step, in order: the state instance asked to choose
  and the name it chose, each hook called (on which instance, under which attribute
  name), and the command's \<^verbatim>\<open>do\<close> called (on which instance's command, with which
  accumulator). The log is kept by the model beside the store; user code cannot touch it.
\<close>

datatype event =
    Chose addr string
  | Hook addr string
  | Do addr string pyval

text \<open>
  \<^verbatim>\<open>self.state\<close>, read and dereferenced. \<^verbatim>\<open>None\<close> has none of the attributes the engine
  asks for (\<^verbatim>\<open>AttributeError\<close>). References are made by \<^verbatim>\<open>add_state\<close> only, so an address
  outside the heap does not arise from the engine; the model answers it as it answers
  \<^verbatim>\<open>None\<close>.
\<close>

definition cur_state :: "'a store \<Rightarrow> (addr \<times> 'a state_obj) option" where
  "cur_state w =
     (case state w of
        None \<Rightarrow> None
      | Some s \<Rightarrow> if s < length (heap w) then Some (s, heap w ! s) else None)"

text \<open>\<^verbatim>\<open>getattr(self.state, attr)()\<close>\<close>

definition getattr_call ::
  "'a classes \<Rightarrow> string \<Rightarrow> 'a store \<Rightarrow> (error + unit) \<times> 'a store \<times> event list" where
  "getattr_call \<Gamma> attr w =
     (case cur_state w of
        None \<Rightarrow> (Inl AttributeError, w, [])
      | Some (s, so) \<Rightarrow>
          (case sc_attrs (\<Gamma> (so_class so)) attr of
             None \<Rightarrow> (Inl AttributeError, w, [])
           | Some h \<Rightarrow> (case h s w of (res, w') \<Rightarrow> (res, w', [Hook s attr]))))"

text \<open>\<^verbatim>\<open>self._state_ret = self.state.commands[cname].do(self._state_ret)\<close>\<close>

definition call_do :: "string \<Rightarrow> 'a store \<Rightarrow> (error + unit) \<times> 'a store \<times> event list" where
  "call_do cname w =
     (case cur_state w of
        None \<Rightarrow> (Inl AttributeError, w, [])
      | Some (s, so) \<Rightarrow>
          (case commands so cname of
             None \<Rightarrow> (Inl KeyError, w, [])
           | Some c \<Rightarrow>
               (case cc_do (co_class c) of
                  None \<Rightarrow> (Inl AttributeError, w, [])
                | Some f \<Rightarrow>
                    (case f (state_ret w) of
                       Inl e \<Rightarrow> (Inl e, w, [Do s cname (state_ret w)])
                     | Inr v \<Rightarrow> (Inr (), w\<lparr>state_ret := v\<rparr>, [Do s cname (state_ret w)])))))"

text \<open>
  \<^verbatim>\<open>if attr in attr_list: getattr(self.state, attr)()\<close>, for \<open>attr\<close> the name
  \<^verbatim>\<open>'before_%s' % cname\<close> or \<^verbatim>\<open>'after_%s' % cname\<close>.
\<close>

definition call_if_listed ::
  "'a classes \<Rightarrow> (string \<Rightarrow> bool) \<Rightarrow> string \<Rightarrow> 'a store
     \<Rightarrow> (error + unit) \<times> 'a store \<times> event list" where
  "call_if_listed \<Gamma> attr_list attr w =
     (if attr_list attr then getattr_call \<Gamma> attr w else (Inr (), w, []))"

text \<open>
  \<^verbatim>\<open>dir(self.state)\<close>, as far as the engine asks: the hook names the class defines. The
  attributes of the instance and of the base class (\<^verbatim>\<open>dfa\<close>, \<^verbatim>\<open>commands\<close>, \<^verbatim>\<open>choose\<close>, ...)
  start with neither \<^verbatim>\<open>before_\<close> nor \<^verbatim>\<open>after_\<close>.
\<close>

definition dir_state :: "'a classes \<Rightarrow> 'a state_obj \<Rightarrow> string \<Rightarrow> bool" where
  "dir_state \<Gamma> so attr = (sc_attrs (\<Gamma> (so_class so)) attr \<noteq> None)"

text \<open>
  \<^verbatim>\<open>_next_step\<close>, with \<open>r\<close> the value \<^verbatim>\<open>random.random()\<close> returns inside \<^verbatim>\<open>choose\<close>.
  \<^verbatim>\<open>attr_list = dir(self.state)\<close> is taken once, from the state that chose; \<^verbatim>\<open>self.state\<close>
  itself is read again for the pre-hook, for the command and for the post-hook.
\<close>

definition next_step ::
  "'a::{ord,zero,plus,times} classes \<Rightarrow> 'a \<Rightarrow> 'a store
     \<Rightarrow> (error + unit) \<times> 'a store \<times> event list" where
  "next_step \<Gamma> r w =
     (case cur_state w of
        None \<Rightarrow> (Inl AttributeError, w, [])
      | Some (s, so) \<Rightarrow>
          (case State_choose (\<Gamma> (so_class so)) so r of
             Inl e \<Rightarrow> (Inl e, w, [])
           | Inr cname \<Rightarrow>
               let attr_list = dir_state \<Gamma> so in
               (case call_if_listed \<Gamma> attr_list (''before_'' @ cname) w of
                  (Inl e, w1, t1) \<Rightarrow> (Inl e, w1, Chose s cname # t1)
                | (Inr u, w1, t1) \<Rightarrow>
                    (case call_do cname w1 of
                       (Inl e, w2, t2) \<Rightarrow> (Inl e, w2, Chose s cname # t1 @ t2)
                     | (Inr u, w2, t2) \<Rightarrow>
                         (case call_if_listed \<Gamma> attr_list (''after_'' @ cname) w2 of
                            (res, w3, t3) \<Rightarrow> (res, w3, Chose s cname # t1 @ t2 @ t3))))))"

text \<open>
  Comparisons against a field that user code has set to \<^verbatim>\<open>None\<close> meanwhile: the source is
  Python 2, where \<^verbatim>\<open>None\<close> is smaller than every number, so \<^verbatim>\<open>x < None\<close> is false.
\<close>

definition lt_nexec :: "int \<Rightarrow> int option \<Rightarrow> bool" where
  "lt_nexec count n = (case n of None \<Rightarrow> False | Some m \<Rightarrow> count < m)"

definition lt_duration :: "'a::ord \<Rightarrow> 'a option \<Rightarrow> bool" where
  "lt_duration elapsed d = (case d of None \<Rightarrow> False | Some m \<Rightarrow> elapsed < m)"

text \<open>
  The two run loops. Either may run forever (a hook can raise \<^verbatim>\<open>nexec\<close> at every step;
  the clock may never reach the duration), so not returning is the value \<open>None\<close>.
  \<open>rnd i\<close> is the random draw of step \<open>i\<close> (counted from 0); \<open>clk 0\<close> is the value of the
  first \<^verbatim>\<open>time.time()\<close> and \<open>clk i\<close> the one read after the \<open>i\<close>-th step. The log \<open>tr\<close> has
  one entry per step begun.
\<close>

partial_function (option) drive_counter_loop ::
  "'a::{ord,zero,plus,times} classes \<Rightarrow> (nat \<Rightarrow> 'a) \<Rightarrow> nat \<Rightarrow> 'a store \<Rightarrow> event list list
     \<Rightarrow> ((error + unit) \<times> 'a store \<times> event list list) option" where
  "drive_counter_loop \<Gamma> rnd count w tr =
     (if lt_nexec (int count) (nexec w) then
        (case next_step \<Gamma> (rnd count) w of
           (Inl e, w', t) \<Rightarrow> Some (Inl e, w', tr @ [t])
         | (Inr u, w', t) \<Rightarrow> drive_counter_loop \<Gamma> rnd (count + 1) w' (tr @ [t]))
      else Some (Inr (), w, tr))"

definition drive_counter_machine ::
  "'a::{ord,zero,plus,times} classes \<Rightarrow> (nat \<Rightarrow> 'a) \<Rightarrow> 'a store
     \<Rightarrow> ((error + unit) \<times> 'a store \<times> event list list) option" where
  "drive_counter_machine \<Gamma> rnd w = drive_counter_loop \<Gamma> rnd 0 w []"

partial_function (option) drive_time_loop ::
  "'a::{ord,zero,plus,times,minus} classes \<Rightarrow> (nat \<Rightarrow> 'a) \<Rightarrow> (nat \<Rightarrow> 'a) \<Rightarrow> 'a \<Rightarrow> 'a
     \<Rightarrow> 'a store \<Rightarrow> event list list
     \<Rightarrow> ((error + unit) \<times> 'a store \<times> event list list) option" where
  "drive_time_loop \<Gamma> rnd clk begin_at end_at w tr =
     (if lt_duration (end_at - begin_at) (duration w) then
        (case next_step \<Gamma> (rnd (length tr)) w of
           (Inl e, w', t) \<Rightarrow> Some (Inl e, w', tr @ [t])
         | (Inr u, w', t) \<Rightarrow>
             drive_time_loop \<Gamma> rnd clk begin_at (clk (length tr + 1)) w' (tr @ [t]))
      else Some (Inr (), w, tr))"

definition drive_time_machine ::
  "'a::{ord,zero,plus,times,minus} classes \<Rightarrow> (nat \<Rightarrow> 'a) \<Rightarrow> (nat \<Rightarrow> 'a) \<Rightarrow> 'a store
     \<Rightarrow> ((error + unit) \<times> 'a store \<times> event list list) option" where
  "drive_time_machine \<Gamma> rnd clk w = drive_time_loop \<Gamma> rnd clk (clk 0) (clk 0) w []"

definition drive_machine ::
  "'a::{ord,zero,plus,times,minus} classes \<Rightarrow> (nat \<Rightarrow> 'a) \<Rightarrow> (nat \<Rightarrow> 'a) \<Rightarrow> 'a store
     \<Rightarrow> ((error + unit) \<times> 'a store \<times> event list list) option" where
  "drive_machine \<Gamma> rnd clk w =
     (if nexec w = None \<and> duration w = None then Some (Inl ValueError, w, [])
      else if state w = None then Some (Inl NotInitializedError, w, [])
      else if duration w = None then drive_counter_machine \<Gamma> rnd w
      else drive_time_machine \<Gamma> rnd clk w)"

subsection \<open>The example of the module's docstring\<close>

text \<open>
  The examples compute at the type \<open>real\<close>; their numbers are small integers and
  halves, on which the machine's arithmetic is exact.
  States \<^verbatim>\<open>S1\<close> (weights \<^verbatim>\<open>c2: 1, c3: 1\<close>) and \<^verbatim>\<open>S2\<close> (weights \<^verbatim>\<open>c1: 1, c3: 1\<close>);
  \<^verbatim>\<open>after_c2\<close> of \<^verbatim>\<open>S1\<close> switches to \<^verbatim>\<open>s2\<close>, \<^verbatim>\<open>after_c1\<close> of \<^verbatim>\<open>S2\<close> switches to \<^verbatim>\<open>s1\<close>; the
  other hooks print. The docstring's commands define \<^verbatim>\<open>execute\<close> only
  (\<open>doc_command\<close>); \<open>do_command\<close> is a command class that also defines \<^verbatim>\<open>do\<close>, counting
  the executions in the accumulator.
\<close>

definition print_hook :: "addr \<Rightarrow> 'a store \<Rightarrow> (error + unit) \<times> 'a store" where
  "print_hook self w = (Inr (), w)"

definition doc_command :: "string \<Rightarrow> cmd_class" where
  "doc_command n =
     \<lparr>cc_name = n, cc_is_command = True, cc_execute = (\<lambda>params. Inr PNone), cc_do = None\<rparr>"

definition count_up :: "pyval \<Rightarrow> error + pyval" where
  "count_up params = (case params of PInt n \<Rightarrow> Inr (PInt (n + 1)) | _ \<Rightarrow> Inr (PInt 1))"

definition do_command :: "string \<Rightarrow> cmd_class" where
  "do_command n =
     \<lparr>cc_name = n, cc_is_command = True, cc_execute = count_up, cc_do = Some count_up\<rparr>"

definition S1 :: "real state_class" where
  "S1 = \<lparr>sc_name = ''S1'', sc_is_state = True, sc_weight = [(''c2'', 1), (''c3'', 1)],
         sc_attrs = [''before_c2'' \<mapsto> print_hook, ''before_c3'' \<mapsto> print_hook,
                     ''after_c2'' \<mapsto> (\<lambda>self. switch_state_to ''s2''),
                     ''after_c3'' \<mapsto> print_hook]\<rparr>"

definition S2 :: "real state_class" where
  "S2 = \<lparr>sc_name = ''S2'', sc_is_state = True, sc_weight = [(''c1'', 1), (''c3'', 1)],
         sc_attrs = [''before_c1'' \<mapsto> print_hook, ''before_c3'' \<mapsto> print_hook,
                     ''after_c1'' \<mapsto> (\<lambda>self. switch_state_to ''s1''),
                     ''after_c3'' \<mapsto> print_hook]\<rparr>"

text \<open>
  Two more classes: a state with one command and no hook, and a state whose post-hook
  assigns \<^verbatim>\<open>self.dfa.nexec = 1\<close>.
\<close>

definition Plain :: "real state_class" where
  "Plain = \<lparr>sc_name = ''Plain'', sc_is_state = True, sc_weight = [(''c1'', 1)],
            sc_attrs = Map.empty\<rparr>"

definition Cut :: "real state_class" where
  "Cut = \<lparr>sc_name = ''Cut'', sc_is_state = True, sc_weight = [(''c1'', 1)],
          sc_attrs = [''after_c1'' \<mapsto> (\<lambda>self w. (Inr (), w\<lparr>nexec := Some 1\<rparr>))]\<rparr>"

definition ex_classes :: "real classes" where
  "ex_classes c = (if c = 0 then S1 else if c = 1 then S2 else if c = 2 then Plain else Cut)"

text \<open>A state whose weights are all zero.\<close>

definition Idle :: "real state_class" where
  "Idle = \<lparr>sc_name = ''Idle'', sc_is_state = True, sc_weight = [(''c1'', 0), (''c3'', 0)],
           sc_attrs = Map.empty\<rparr>"

text \<open>
  \<^verbatim>\<open>sm.add_state(S1, C2, C3, is_start=True); sm.add_state(S2, C1, C3)\<close>, with the
  command classes made by \<open>mk\<close>.
\<close>

definition ex_store ::
  "(string \<Rightarrow> cmd_class) \<Rightarrow> int option \<Rightarrow> real option \<Rightarrow> real store" where
  "ex_store mk n d =
     snd (add_state ex_classes 1 [mk ''C1'', mk ''C3''] False
       (snd (add_state ex_classes 0 [mk ''C2'', mk ''C3''] True (DFA_init n d []))))"

definition one_state_store :: "class_id \<Rightarrow> int option \<Rightarrow> real option \<Rightarrow> real store" where
  "one_state_store c n d =
     snd (add_state ex_classes c [do_command ''C1''] True (DFA_init n d []))"

text \<open>
  A command class whose \<^verbatim>\<open>do\<close> raises, registered alone in a \<^verbatim>\<open>Plain\<close> state; and a state
  whose post-hook assigns \<^verbatim>\<open>self.dfa.duration = 0\<close>, with its own class table.
\<close>

definition raising_command :: "string \<Rightarrow> cmd_class" where
  "raising_command n =
     \<lparr>cc_name = n, cc_is_command = True, cc_execute = (\<lambda>params. Inl (UserError ''boom'')),
      cc_do = Some (\<lambda>params. Inl (UserError ''boom''))\<rparr>"

definition raising_store :: "int option \<Rightarrow> real option \<Rightarrow> real store" where
  "raising_store n d =
     snd (add_state ex_classes 2 [raising_command ''C1''] True (DFA_init n d []))"

definition Hurry :: "real state_class" where
  "Hurry = \<lparr>sc_name = ''Hurry'', sc_is_state = True, sc_weight = [(''c1'', 1)],
            sc_attrs = [''after_c1'' \<mapsto> (\<lambda>self w. (Inr (), w\<lparr>duration := Some 0\<rparr>))]\<rparr>"

definition hurry_store :: "int option \<Rightarrow> real option \<Rightarrow> real store" where
  "hurry_store n d =
     snd (add_state (\<lambda>c. Hurry) 0 [do_command ''C1''] True (DFA_init n d []))"

section \<open>Properties\<close>

subsection \<open>Importing commands and setting weights\<close>

lemma import_loop_result:
  "fst (import_loop argv so) = (if \<forall>a\<in>set argv. cc_is_command a then Inr () else Inl KeyError)"
  by (induction argv arbitrary: so) auto

lemma import_loop_dom:
  "import_loop argv so = (Inr u, so') \<Longrightarrow>
     dom (commands so') = dom (commands so) \<union> lower ` cc_name ` set argv"
  by (induction argv arbitrary: so) (auto split: if_splits)

lemma set_weight_loop_result:
  "fst (set_weight_loop tbl so) =
     (if \<forall>k\<in>set (map fst tbl). commands so k \<noteq> None then Inr () else Inl ValueError)"
proof (induction tbl arbitrary: so)
  case Nil
  then show ?case by simp
next
  case (Cons p tbl)
  obtain k v where p: "p = (k, v)" by (cases p)
  show ?case
  proof (cases "commands so k")
    case None
    then show ?thesis by (simp add: p)
  next
    case (Some c)
    then show ?thesis by (auto simp: p Cons.IH)
  qed
qed

lemma set_weight_loop_other:
  "set_weight_loop tbl so = (Inr u, so') \<Longrightarrow> k \<notin> set (map fst tbl) \<Longrightarrow>
     commands so' k = commands so k"
  by (induction tbl arbitrary: so) (auto split: option.splits)

lemma set_weight_loop_total:
  "set_weight_loop tbl so = (Inr u, so') \<Longrightarrow>
     weight_sum so' = foldl (+) (weight_sum so) (map snd tbl)"
  by (induction tbl arbitrary: so) (auto split: option.splits)

lemma set_weight_loop_sum:
  fixes so :: "real state_obj"
  shows "set_weight_loop tbl so = (Inr u, so') \<Longrightarrow>
     weight_sum so' = weight_sum so + sum_list (map snd tbl)"
  by (induction tbl arbitrary: so) (auto split: option.splits)

lemma set_weight_loop_weights:
  "set_weight_loop tbl so = (Inr u, so') \<Longrightarrow> distinct (map fst tbl) \<Longrightarrow> (k, v) \<in> set tbl \<Longrightarrow>
     \<exists>c. commands so' k = Some c \<and> co_weight c = Some v"
proof (induction tbl arbitrary: so)
  case Nil
  then show ?case by simp
next
  case (Cons p tbl)
  obtain k0 v0 where p: "p = (k0, v0)" by (cases p)
  from Cons.prems(1) obtain c0 where c0: "commands so k0 = Some c0"
    and rest: "set_weight_loop tbl
        (so\<lparr>weight_sum := weight_sum so + v0,
            commands := (commands so)(k0 \<mapsto> c0\<lparr>co_weight := Some v0\<rparr>)\<rparr>) = (Inr u, so')"
    by (auto simp: p split: option.splits)
  show ?case
  proof (cases "(k, v) \<in> set tbl")
    case True
    with Cons.IH [OF rest] Cons.prems(2) show ?thesis by simp
  next
    case False
    with Cons.prems(3) have kv: "k = k0" "v = v0" by (auto simp: p)
    from Cons.prems(2) have "k0 \<notin> set (map fst tbl)" by (simp add: p)
    from set_weight_loop_other [OF rest this] show ?thesis by (simp add: kv)
  qed
qed

text \<open>The state of an instance after a successful import.\<close>

lemma import_commands_built:
  assumes "import_commands cls argv (State_init c kw) = (Inr u, so)"
    and "distinct (map fst (sc_weight cls))"
  shows "weight_sum so = running_sum (sc_weight cls) (length (sc_weight cls))"
    and "\<forall>(k, v)\<in>set (sc_weight cls). \<exists>c. commands so k = Some c \<and> co_weight c = Some v"
proof -
  from assms(1) obtain so1 where
    sw: "set_weight_loop (sc_weight cls) (so1\<lparr>weight_sum := 0\<rparr>) = (Inr u, so)"
    by (auto simp: import_commands_def set_weight_def split: prod.splits sum.splits)
  from set_weight_loop_total [OF sw]
  show "weight_sum so = running_sum (sc_weight cls) (length (sc_weight cls))"
    by (simp add: running_sum_def)
  from set_weight_loop_weights [OF sw assms(2)]
  show "\<forall>(k, v)\<in>set (sc_weight cls). \<exists>c. commands so k = Some c \<and> co_weight c = Some v"
    by blast
qed

lemma import_commands_ok:
  fixes cls :: "real state_class"
  assumes "import_commands cls argv (State_init c kw) = (Inr u, so)"
    and "distinct (map fst (sc_weight cls))"
  shows "weight_sum so = sum_list (map snd (sc_weight cls))"
    and "\<forall>(k, v)\<in>set (sc_weight cls). \<exists>c. commands so k = Some c \<and> co_weight c = Some v"
proof -
  from assms(1) obtain so1 where
    sw: "set_weight_loop (sc_weight cls) (so1\<lparr>weight_sum := 0\<rparr>) = (Inr u, so)"
    by (auto simp: import_commands_def set_weight_def split: prod.splits sum.splits)
  from set_weight_loop_sum [OF sw]
  show "weight_sum so = sum_list (map snd (sc_weight cls))" by simp
  from set_weight_loop_weights [OF sw assms(2)]
  show "\<forall>(k, v)\<in>set (sc_weight cls). \<exists>c. commands so k = Some c \<and> co_weight c = Some v"
    by blast
qed

subsection \<open>Weighted selection\<close>

lemma choose_loop_zero:
  fixes cmds :: "string \<rightharpoonup> real command"
  assumes "\<forall>k\<in>set ks. \<exists>c. cmds k = Some c \<and> co_weight c = Some 0"
  shows "choose_loop 0 0 ks cmds = Inl ValueError"
  using assms by (induction ks) auto

lemma choose_loop_key:
  "choose_loop a s ks cmds = Inr k \<Longrightarrow> k \<in> set ks"
  by (induction ks arbitrary: s) (auto split: option.splits if_splits)

subsection \<open>Evaluating the examples\<close>

lemma lower_ex:
  "lower ''C1'' = ''c1''" "lower ''C2'' = ''c2''" "lower ''C3'' = ''c3''" "lower ''c2'' = ''c2''"
  "lower ''S1'' = ''s1''" "lower ''S2'' = ''s2''" "lower ''Plain'' = ''plain''"
  "lower ''Cut'' = ''cut''" "lower ''Idle'' = ''idle''"
  by (simp_all add: lower_def lower_char_def)

lemmas model_defs =
  add_state_def DFA_init_def State_init_def import_commands_def Command_init_def set_weight_def
  next_step_def cur_state_def State_choose_def getattr_call_def call_do_def call_if_listed_def
  dir_state_def switch_state_to_def lt_nexec_def lt_duration_def Let_def

lemmas ex_defs =
  ex_store_def one_state_store_def ex_classes_def S1_def S2_def Plain_def Cut_def Idle_def
  doc_command_def do_command_def print_hook_def count_up_def lower_ex

lemma ex_store_fields:
  "nexec (ex_store do_command n d) = n" "duration (ex_store do_command n d) = d"
  "state (ex_store do_command n d) = Some 0" "state_ret (ex_store do_command n d) = PNone"
  "length (heap (ex_store do_command n d)) = 2"
  "states (ex_store do_command n d) = [''s1'' \<mapsto> 0, ''s2'' \<mapsto> 1]"
  by (simp_all add: model_defs ex_defs)

subsection \<open>Weighted selection succeeds on a draw below the total\<close>

lemma running_sum_Suc:
  "i < length tbl \<Longrightarrow> running_sum tbl (Suc i) = running_sum tbl i + snd (tbl ! i)"
  by (simp add: running_sum_def take_Suc_conv_app_nth)

lemma choose_loop_interval:
  fixes a s :: "'a::{linorder,plus}"
  assumes "\<forall>(k, v)\<in>set tbl. \<exists>c. cmds k = Some c \<and> co_weight c = Some v"
    and "s \<le> a" and "a < foldl (+) s (map snd tbl)"
  shows "\<exists>i<length tbl. choose_loop a s (map fst tbl) cmds = Inr (fst (tbl ! i))
           \<and> foldl (+) s (map snd (take i tbl)) \<le> a
           \<and> a < foldl (+) s (map snd (take (Suc i) tbl))
           \<and> (\<forall>j<i. \<not> (foldl (+) s (map snd (take j tbl)) \<le> a
                        \<and> a < foldl (+) s (map snd (take (Suc j) tbl))))"
  using assms
proof (induction tbl arbitrary: s)
  case Nil
  then show ?case by simp
next
  case (Cons p tbl)
  obtain k v where p: "p = (k, v)" by (cases p)
  from Cons.prems(1) obtain c where c: "cmds k = Some c" "co_weight c = Some v"
    by (auto simp: p)
  show ?case
  proof (cases "a < s + v")
    case True
    with Cons.prems(2) c show ?thesis
      by (intro exI [of _ 0]) (simp add: p)
  next
    case False
    have all: "\<forall>(k, v)\<in>set tbl. \<exists>c. cmds k = Some c \<and> co_weight c = Some v"
      using Cons.prems(1) by simp
    have lo: "s + v \<le> a" using False by simp
    have hi: "a < foldl (+) (s + v) (map snd tbl)"
      using Cons.prems(3) by (simp add: p)
    from Cons.IH [OF all lo hi] obtain i where i: "i < length tbl"
      "choose_loop a (s + v) (map fst tbl) cmds = Inr (fst (tbl ! i))"
      "foldl (+) (s + v) (map snd (take i tbl)) \<le> a"
      "a < foldl (+) (s + v) (map snd (take (Suc i) tbl))"
      "\<forall>j<i. \<not> (foldl (+) (s + v) (map snd (take j tbl)) \<le> a
                        \<and> a < foldl (+) (s + v) (map snd (take (Suc j) tbl)))"
      by blast
    have first: "\<forall>j<Suc i. \<not> (foldl (+) s (map snd (take j (p # tbl))) \<le> a
                        \<and> a < foldl (+) s (map snd (take (Suc j) (p # tbl))))"
    proof (intro allI impI)
      fix j assume j: "j < Suc i"
      show "\<not> (foldl (+) s (map snd (take j (p # tbl))) \<le> a
                        \<and> a < foldl (+) s (map snd (take (Suc j) (p # tbl))))"
      proof (cases j)
        case 0
        with False show ?thesis by (simp add: p)
      next
        case (Suc j')
        with j i(5) show ?thesis by (simp add: p)
      qed
    qed
    from i False c first show ?thesis
      by (intro exI [of _ "Suc i"]) (simp add: p)
  qed
qed

text \<open>
  Claim C4. Take a state instance as \<^verbatim>\<open>add_state\<close> builds it (constructed, then its
  commands imported without error), and a random value \<open>r\<close> whose draw
  \<open>r * weight_sum\<close> lies in \<open>[0, total)\<close>: not below \<open>0\<close> and strictly below the total
  \<^verbatim>\<open>_weight_sum\<close>. Then \<^verbatim>\<open>choose\<close> returns a key of the weight table and never reaches its
  final \<^verbatim>\<open>raise\<close>: it returns the key of the first entry \<open>i\<close> whose half-open interval
  \<open>[running_sum i, running_sum i + weight i)\<close> contains the draw. The running sum is the
  one the loop itself accumulates, over the table in the order in which \<^verbatim>\<open>_set_weight\<close>
  summed the total and with the same additions, so the total is the running sum at the
  end of the table and the last interval ends exactly there. This holds in the machine's
  arithmetic: nothing is used of \<open>+\<close> and \<open>*\<close>, only that the numbers compared are linearly
  ordered (no NaN takes part: a NaN draw or total fails the hypothesis).
\<close>

theorem choose_returns_key:
  fixes cls :: "'a::{linorder,zero,plus,times} state_class"
  assumes "import_commands cls argv (State_init c kw) = (Inr (), so)"
    and "distinct (map fst (sc_weight cls))"
    and "0 \<le> r * weight_sum so" and "r * weight_sum so < weight_sum so"
  shows "weight_sum so = running_sum (sc_weight cls) (length (sc_weight cls))
       \<and> (\<exists>i<length (sc_weight cls).
           State_choose cls so r = Inr (fst (sc_weight cls ! i))
         \<and> running_sum (sc_weight cls) i \<le> r * weight_sum so
         \<and> r * weight_sum so < running_sum (sc_weight cls) i + snd (sc_weight cls ! i)
         \<and> (\<forall>j<i. \<not> (running_sum (sc_weight cls) j \<le> r * weight_sum so
                     \<and> r * weight_sum so < running_sum (sc_weight cls) j + snd (sc_weight cls ! j))))"
proof -
  let ?tbl = "sc_weight cls"
  let ?a = "r * weight_sum so"
  have ws: "weight_sum so = running_sum ?tbl (length ?tbl)"
    and wts: "\<forall>(k, v)\<in>set ?tbl. \<exists>c. commands so k = Some c \<and> co_weight c = Some v"
    using import_commands_built [OF assms(1,2)] by blast+
  have hi: "?a < foldl (+) 0 (map snd ?tbl)"
    using assms(4) ws by (simp add: running_sum_def)
  from choose_loop_interval [OF wts assms(3) hi] obtain i where i: "i < length ?tbl"
    "choose_loop ?a 0 (map fst ?tbl) (commands so) = Inr (fst (?tbl ! i))"
    "running_sum ?tbl i \<le> ?a"
    "?a < running_sum ?tbl (Suc i)"
    "\<forall>j<i. \<not> (running_sum ?tbl j \<le> ?a \<and> ?a < running_sum ?tbl (Suc j))"
    unfolding running_sum_def by blast
  have "\<forall>j<i. \<not> (running_sum ?tbl j \<le> ?a \<and> ?a < running_sum ?tbl j + snd (?tbl ! j))"
  proof (intro allI impI)
    fix j assume j: "j < i"
    then have "j < length ?tbl" using i(1) by simp
    then have "running_sum ?tbl (Suc j) = running_sum ?tbl j + snd (?tbl ! j)"
      by (rule running_sum_Suc)
    with i(5) j
    show "\<not> (running_sum ?tbl j \<le> ?a \<and> ?a < running_sum ?tbl j + snd (?tbl ! j))"
      by metis
  qed
  moreover have "?a < running_sum ?tbl i + snd (?tbl ! i)"
    using i(4) running_sum_Suc [OF i(1)] by simp
  moreover have "State_choose cls so r = Inr (fst (?tbl ! i))"
    using i(2) by (simp add: State_choose_def)
  ultimately have "\<exists>i<length ?tbl.
           State_choose cls so r = Inr (fst (?tbl ! i))
         \<and> running_sum ?tbl i \<le> ?a
         \<and> ?a < running_sum ?tbl i + snd (?tbl ! i)
         \<and> (\<forall>j<i. \<not> (running_sum ?tbl j \<le> ?a
                     \<and> ?a < running_sum ?tbl j + snd (?tbl ! j)))"
    using i(1,3) by blast
  with ws show ?thesis by blast
qed

theorem choose_returns_key_witness:
  "import_commands S1 [do_command ''C2'', do_command ''C3''] (State_init 0 []) =
     (Inr (), snd (import_commands S1 [do_command ''C2'', do_command ''C3''] (State_init 0 [])))
   \<and> distinct (map fst (sc_weight S1))
   \<and> weight_sum (snd (import_commands S1 [do_command ''C2'', do_command ''C3'']
        (State_init 0 []))) = 2
   \<and> State_choose S1
        (snd (import_commands S1 [do_command ''C2'', do_command ''C3''] (State_init 0 []))) (1/2)
      = Inr ''c3''"
proof -
  let ?so = "snd (import_commands S1 [do_command ''C2'', do_command ''C3''] (State_init 0 []))"
  have h1: "import_commands S1 [do_command ''C2'', do_command ''C3''] (State_init 0 []) = (Inr (), ?so)"
    by (simp add: model_defs ex_defs)
  have h2: "distinct (map fst (sc_weight S1))" by (simp add: S1_def)
  have ws: "weight_sum ?so = 2" by (simp add: model_defs ex_defs)
  have h3: "0 \<le> 1/2 * weight_sum ?so" and h4: "1/2 * weight_sum ?so < weight_sum ?so"
    by (simp_all add: ws)
  from choose_returns_key [OF h1 h2 h3 h4] obtain i where
    i: "i < length (sc_weight S1)" "State_choose S1 ?so (1/2) = Inr (fst (sc_weight S1 ! i))"
       "running_sum (sc_weight S1) i \<le> 1/2 * weight_sum ?so"
       "1/2 * weight_sum ?so < running_sum (sc_weight S1) i + snd (sc_weight S1 ! i)"
    by auto
  from i(1) have "i = 0 \<or> i = 1" by (auto simp: S1_def)
  moreover from i(3,4) have "running_sum (sc_weight S1) i \<le> 1"
    "1 < running_sum (sc_weight S1) i + snd (sc_weight S1 ! i)"
    by (simp_all add: ws)
  ultimately have "i = 1" by (auto simp: S1_def running_sum_def)
  with i(2) have "State_choose S1 ?so (1/2) = Inr ''c3''" by (simp add: S1_def)
  with h1 h2 ws show ?thesis by blast
qed

subsection \<open>Weighted selection fails on an empty or zero table\<close>

text \<open>
  Claim C6. Take a state instance as \<^verbatim>\<open>add_state\<close> builds it, with weights that are
  non-negative as the data model requires. If its weight table is empty or its total
  weight is zero, \<^verbatim>\<open>choose\<close> raises \<^verbatim>\<open>ValueError\<close> whatever the random value: it returns
  no name, and being a total function it does not loop.
\<close>

theorem choose_zero_weight_fails:
  fixes cls :: "real state_class"
  assumes "import_commands cls argv (State_init c kw) = (Inr (), so)"
    and "distinct (map fst (sc_weight cls))"
    and "\<forall>v\<in>set (map snd (sc_weight cls)). 0 \<le> v"
    and "sc_weight cls = [] \<or> sum_list (map snd (sc_weight cls)) = 0"
  shows "State_choose cls so r = Inl ValueError"
proof -
  let ?tbl = "sc_weight cls"
  have ws: "weight_sum so = sum_list (map snd ?tbl)"
    and wts: "\<forall>(k, v)\<in>set ?tbl. \<exists>c. commands so k = Some c \<and> co_weight c = Some v"
    using import_commands_ok [OF assms(1,2)] by blast+
  from assms(4) have z: "sum_list (map snd ?tbl) = 0" by auto
  have "\<forall>v\<in>set (map snd ?tbl). v = 0"
    using sum_list_nonneg_eq_0_iff [of "map snd ?tbl"] assms(3) z by blast
  with wts have "\<forall>k\<in>set (map fst ?tbl). \<exists>c. commands so k = Some c \<and> co_weight c = Some 0"
    by fastforce
  from choose_loop_zero [OF this] show ?thesis
    by (simp add: State_choose_def ws z)
qed

theorem choose_zero_weight_fails_witness:
  "import_commands Idle [do_command ''C1'', do_command ''C3''] (State_init 0 []) =
     (Inr (), snd (import_commands Idle [do_command ''C1'', do_command ''C3''] (State_init 0 [])))
   \<and> distinct (map fst (sc_weight Idle))
   \<and> map snd (sc_weight Idle) = [0, 0]
   \<and> sum_list (map snd (sc_weight Idle)) = 0
   \<and> State_choose Idle
        (snd (import_commands Idle [do_command ''C1'', do_command ''C3''] (State_init 0 []))) (1/2)
      = Inl ValueError"
proof -
  let ?so = "snd (import_commands Idle [do_command ''C1'', do_command ''C3''] (State_init 0 []))"
  have h1: "import_commands Idle [do_command ''C1'', do_command ''C3''] (State_init 0 []) = (Inr (), ?so)"
    by (simp add: model_defs ex_defs)
  have h2: "distinct (map fst (sc_weight Idle))" by (simp add: Idle_def)
  have h3: "\<forall>v\<in>set (map snd (sc_weight Idle)). 0 \<le> v" by (simp add: Idle_def)
  have h4: "sum_list (map snd (sc_weight Idle)) = 0" by (simp add: Idle_def)
  from h4 have h4': "sc_weight Idle = [] \<or> sum_list (map snd (sc_weight Idle)) = 0" by blast
  have h5: "map snd (sc_weight Idle) = [0, 0]" by (simp add: Idle_def)
  from choose_zero_weight_fails [OF h1 h2 h3 h4', of "1/2"] h1 h2 h4 h5 show ?thesis by blast
qed

subsection \<open>Switching the current state\<close>

text \<open>
  Claim C7. For a name that is not in the registry \<^verbatim>\<open>dfa.states\<close>, \<^verbatim>\<open>switch_state_to\<close>
  raises \<^verbatim>\<open>DoesNotFound\<close> and leaves the store, the current state included, as it was;
  for a registered name it makes the registered instance the current state and changes
  nothing else.
\<close>

theorem switch_state_to_registry:
  "(states w name = None \<longrightarrow> switch_state_to name w = (Inl DoesNotFound, w))
   \<and> (\<forall>a. states w name = Some a \<longrightarrow> switch_state_to name w = (Inr (), w\<lparr>state := Some a\<rparr>))"
  by (simp add: switch_state_to_def)

theorem switch_state_to_registry_witness:
  "states (ex_store do_command (Some 3) None) ''nonexistent'' = None
   \<and> switch_state_to ''nonexistent'' (ex_store do_command (Some 3) None)
       = (Inl DoesNotFound, ex_store do_command (Some 3) None)
   \<and> state (ex_store do_command (Some 3) None) = Some 0
   \<and> states (ex_store do_command (Some 3) None) ''s2'' = Some 1
   \<and> switch_state_to ''s2'' (ex_store do_command (Some 3) None)
       = (Inr (), (ex_store do_command (Some 3) None)\<lparr>state := Some 1\<rparr>)"
proof -
  let ?w = "ex_store do_command (Some 3) None"
  have h1: "states ?w ''nonexistent'' = None" by (simp add: ex_store_fields)
  have h2: "states ?w ''s2'' = Some 1" by (simp add: ex_store_fields)
  have h3: "state ?w = Some 0" by (simp add: ex_store_fields)
  from switch_state_to_registry [of ?w "''nonexistent''"] switch_state_to_registry [of ?w "''s2''"]
    h1 h2 h3
  show ?thesis by blast
qed

subsection \<open>Errors of the command import\<close>

lemma find_snoc:
  "find P (xs @ [x]) = (case find P xs of None \<Rightarrow> (if P x then Some x else None) | Some y \<Rightarrow> Some y)"
  by (induction xs) auto

lemma import_loop_commands:
  "import_loop argv so = (Inr u, so') \<Longrightarrow>
     commands so' k =
       (case find (\<lambda>a. lower (cc_name a) = k) (rev argv) of
          None \<Rightarrow> commands so k
        | Some a \<Rightarrow> Some (Command_init a (cmd_params so)))"
  by (induction argv arbitrary: so) (auto simp: find_snoc split: if_splits option.splits)

lemma set_weight_loop_class:
  "set_weight_loop tbl so = (res, so') \<Longrightarrow>
     map_option co_class (commands so' k) = map_option co_class (commands so k)"
  by (induction tbl arbitrary: so) (auto split: option.splits if_splits)

lemma import_commands_result:
  fixes cls :: "'a::{zero,plus} state_class"
  shows "fst (import_commands cls argv (State_init c kw)) =
     (if \<exists>a\<in>set argv. \<not> cc_is_command a then Inl KeyError
      else if \<exists>k\<in>set (map fst (sc_weight cls)). k \<notin> lower ` cc_name ` set argv
           then Inl ValueError
      else Inr ())"
proof (cases "\<exists>a\<in>set argv. \<not> cc_is_command a")
  case True
  with import_loop_result [of argv "State_init c kw :: 'a state_obj"]
  have "fst (import_loop argv (State_init c kw :: 'a state_obj)) = Inl KeyError" by auto
  then obtain so1 where "import_loop argv (State_init c kw :: 'a state_obj) = (Inl KeyError, so1)"
    by (cases "import_loop argv (State_init c kw :: 'a state_obj)") auto
  with True show ?thesis by (simp add: import_commands_def)
next
  case False
  with import_loop_result [of argv "State_init c kw :: 'a state_obj"]
  obtain so1 where so1: "import_loop argv (State_init c kw :: 'a state_obj) = (Inr (), so1)"
    by (cases "import_loop argv (State_init c kw :: 'a state_obj)") auto
  from import_loop_dom [OF so1]
  have dom: "\<And>k. commands so1 k \<noteq> None \<longleftrightarrow> k \<in> lower ` cc_name ` set argv"
    by (auto simp: State_init_def dom_def)
  have "fst (import_commands cls argv (State_init c kw)) =
          fst (set_weight_loop (sc_weight cls) (so1\<lparr>weight_sum := 0\<rparr>))"
    by (simp add: import_commands_def so1 set_weight_def)
  also have "\<dots> = (if \<forall>k\<in>set (map fst (sc_weight cls)). k \<in> lower ` cc_name ` set argv
                   then Inr () else Inl ValueError)"
    using dom by (simp only: set_weight_loop_result) auto
  finally show ?thesis using False by auto
qed

lemma import_commands_class:
  assumes "import_commands cls argv (State_init c kw) = (Inr (), so)"
  shows "map_option co_class (commands so k) = find (\<lambda>a. lower (cc_name a) = k) (rev argv)"
proof -
  from assms obtain so1 where so1: "import_loop argv (State_init c kw) = (Inr (), so1)"
    and sw: "set_weight_loop (sc_weight cls) (so1\<lparr>weight_sum := 0\<rparr>) = (Inr (), so)"
    by (auto simp: import_commands_def set_weight_def split: prod.splits sum.splits)
  from set_weight_loop_class [OF sw]
  have "map_option co_class (commands so k) = map_option co_class (commands so1 k)" by simp
  also from import_loop_commands [OF so1]
  have "\<dots> = find (\<lambda>a. lower (cc_name a) = k) (rev argv)"
    by (simp add: State_init_def Command_init_def split: option.splits)
  finally show ?thesis .
qed

lemma add_state_result:
  "sc_is_state (\<Gamma> c) \<Longrightarrow>
     fst (add_state \<Gamma> c argv is_start w) =
       fst (import_commands (\<Gamma> c) argv (State_init c (state_params w)))"
  by (simp add: add_state_def Let_def split: prod.splits sum.splits)

text \<open>
  Claim C5, as the code has it. Importing into a freshly constructed state raises
  \<^verbatim>\<open>KeyError\<close> when some entry is not a subclass of \<^verbatim>\<open>Command\<close>; otherwise it raises
  \<^verbatim>\<open>ValueError\<close> when some key of the weight table is not the lowercased name of an
  imported class; otherwise it succeeds. Two entries with the same lowercased name are
  no error: the name is bound to an instance of the last such entry. \<^verbatim>\<open>add_state\<close> passes
  the outcome of the import on, so the failures happen at registration.
\<close>

theorem import_commands_errors:
  fixes cls :: "'a::{zero,plus} state_class" and \<Gamma> :: "'a classes"
  shows "fst (import_commands cls argv (State_init c kw)) =
     (if \<exists>a\<in>set argv. \<not> cc_is_command a then Inl KeyError
      else if \<exists>k\<in>set (map fst (sc_weight cls)). k \<notin> lower ` cc_name ` set argv
           then Inl ValueError
      else Inr ())
   \<and> (\<forall>so. import_commands cls argv (State_init c kw) = (Inr (), so) \<longrightarrow>
         (\<forall>k. map_option co_class (commands so k) = find (\<lambda>a. lower (cc_name a) = k) (rev argv)))
   \<and> (sc_is_state (\<Gamma> c) \<longrightarrow>
         fst (add_state \<Gamma> c argv is_start w) =
           fst (import_commands (\<Gamma> c) argv (State_init c (state_params w))))"
  using import_commands_result [of cls argv c kw] import_commands_class [of cls argv c kw]
    add_state_result [of \<Gamma> c argv is_start w]
  by blast

theorem import_commands_errors_witness:
  "fst (import_commands S1 [do_command ''C2'', \<lparr>cc_name = ''Other'', cc_is_command = False,
          cc_execute = Command_execute, cc_do = None\<rparr>] (State_init 0 [])) = Inl KeyError
   \<and> fst (import_commands S1 [do_command ''C2''] (State_init 0 [])) = Inl ValueError
   \<and> fst (import_commands S1 [do_command ''C2'', do_command ''c2'', do_command ''C3'']
            (State_init 0 [])) = Inr ()
   \<and> map_option co_class (commands (snd (import_commands S1
            [do_command ''C2'', do_command ''c2'', do_command ''C3''] (State_init 0 []))) ''c2'')
       = Some (do_command ''c2'')
   \<and> sc_is_state (ex_classes 0)
   \<and> fst (add_state ex_classes 0 [do_command ''C2''] True (DFA_init None (Some 10) []))
       = Inl ValueError"
proof -
  let ?bad = "\<lparr>cc_name = ''Other'', cc_is_command = False,
          cc_execute = Command_execute, cc_do = None\<rparr>"
  let ?dup = "[do_command ''C2'', do_command ''c2'', do_command ''C3'']"
  have lows: "lower ''C2'' = ''c2''" "lower ''C3'' = ''c3''" "lower ''c2'' = ''c2''"
    by (simp_all add: lower_ex)
  have a: "fst (import_commands S1 [do_command ''C2'', ?bad] (State_init 0 [])) = Inl KeyError"
    using import_commands_errors [of S1 "[do_command ''C2'', ?bad]" 0 "[]"]
    by (simp add: do_command_def)
  have b: "fst (import_commands S1 [do_command ''C2''] (State_init 0 [])) = Inl ValueError"
    using import_commands_errors [of S1 "[do_command ''C2'']" 0 "[]"]
    by (simp add: do_command_def S1_def lows)
  have c: "fst (import_commands S1 ?dup (State_init 0 [])) = Inr ()"
    using import_commands_errors [of S1 ?dup 0 "[]"]
    by (simp add: do_command_def S1_def lows)
  then have c': "import_commands S1 ?dup (State_init 0 []) =
      (Inr (), snd (import_commands S1 ?dup (State_init 0 [])))"
    by (simp add: prod_eq_iff)
  have d: "map_option co_class (commands (snd (import_commands S1 ?dup (State_init 0 []))) ''c2'')
       = Some (do_command ''c2'')"
    using import_commands_errors [of S1 ?dup 0 "[]"] c'
    by (simp add: do_command_def lows)
  have e: "sc_is_state (ex_classes 0)" by (simp add: ex_classes_def S1_def)
  have f: "fst (add_state ex_classes 0 [do_command ''C2''] True (DFA_init None (Some 10) []))
       = Inl ValueError"
    using import_commands_errors [of S1 "[do_command ''C2'']" 0 "[]" ex_classes True
        "DFA_init None (Some 10) []"] e
    by (simp add: do_command_def S1_def lows ex_classes_def DFA_init_def)
  from a b c d e f show ?thesis by blast
qed

text \<open>
  The claim as the specification states it fails: two distinct command classes with the
  same lowercased name are imported, and registered, without any error.
\<close>

theorem duplicate_command_name_counterexample:
  "do_command ''C2'' \<noteq> do_command ''c2''
   \<and> lower (cc_name (do_command ''C2'')) = lower (cc_name (do_command ''c2''))
   \<and> fst (import_commands S1 [do_command ''C2'', do_command ''c2'', do_command ''C3'']
            (State_init 0 [])) = Inr ()
   \<and> fst (add_state ex_classes 0 [do_command ''C2'', do_command ''c2'', do_command ''C3''] True
            (DFA_init None (Some 10) [])) = Inr ()"
  by (simp add: model_defs ex_defs)

subsection \<open>Registering a state under a name already taken\<close>

text \<open>
  Claim C10. Let a name be registered already, for the instance at address \<open>old\<close>, and
  let \<^verbatim>\<open>add_state\<close> be called with a \<^verbatim>\<open>State\<close> class of the same lowercased name, whose
  commands import without error. The call raises nothing; the registry entry of the name
  now refers to the newly constructed instance, at a new address, and every other entry
  is as before; the old instance is untouched. Without \<^verbatim>\<open>is_start\<close> the current state is
  not reassigned: if it was the old instance, registered under this name only, it still
  is, and no name of the registry refers to it any more.
\<close>

theorem add_state_rebinds:
  assumes "sc_is_state (\<Gamma> c)"
    and "states w (lower (sc_name (\<Gamma> c))) = Some old"
    and "old < length (heap w)"
    and "import_commands (\<Gamma> c) cmds (State_init c (state_params w)) = (Inr (), so)"
  shows "\<exists>w'. add_state \<Gamma> c cmds is_start w = (Inr (), w')
           \<and> states w' (lower (sc_name (\<Gamma> c))) = Some (length (heap w))
           \<and> length (heap w) \<noteq> old
           \<and> heap w' = heap w @ [so]
           \<and> heap w' ! old = heap w ! old
           \<and> (\<forall>n. n \<noteq> lower (sc_name (\<Gamma> c)) \<longrightarrow> states w' n = states w n)
           \<and> (is_start \<longrightarrow> state w' = Some (length (heap w)))
           \<and> (\<not> is_start \<longrightarrow> state w' = state w)
           \<and> (\<not> is_start \<and> state w = Some old
                \<and> (\<forall>n. states w n = Some old \<longrightarrow> n = lower (sc_name (\<Gamma> c)))
               \<longrightarrow> state w' = Some old \<and> (\<forall>n. states w' n \<noteq> Some old))"
proof -
  let ?sname = "lower (sc_name (\<Gamma> c))"
  let ?a = "length (heap w)"
  let ?w' = "w\<lparr>heap := heap w @ [so], states := (states w)(?sname \<mapsto> ?a),
               state := if is_start then Some ?a else state w\<rparr>"
  have run: "add_state \<Gamma> c cmds is_start w = (Inr (), ?w')"
    using assms(1,4) by (simp add: add_state_def Let_def)
  have new: "?a \<noteq> old" using assms(3) by simp
  have old: "heap ?w' ! old = heap w ! old" using assms(3) by (simp add: nth_append)
  have stale: "\<forall>n. states w n = Some old \<longrightarrow> n = ?sname \<Longrightarrow> \<forall>n. states ?w' n \<noteq> Some old"
    using new by auto
  show ?thesis
  proof (intro exI [of _ ?w'] conjI)
    show "add_state \<Gamma> c cmds is_start w = (Inr (), ?w')" by (rule run)
    show "states ?w' ?sname = Some ?a" by simp
    show "?a \<noteq> old" by (rule new)
    show "heap ?w' = heap w @ [so]" by simp
    show "heap ?w' ! old = heap w ! old" by (rule old)
    show "\<forall>n. n \<noteq> ?sname \<longrightarrow> states ?w' n = states w n" by simp
    show "is_start \<longrightarrow> state ?w' = Some ?a" by simp
    show "\<not> is_start \<longrightarrow> state ?w' = state w" by simp
    show "\<not> is_start \<and> state w = Some old
            \<and> (\<forall>n. states w n = Some old \<longrightarrow> n = ?sname)
          \<longrightarrow> state ?w' = Some old \<and> (\<forall>n. states ?w' n \<noteq> Some old)"
      using stale by simp
  qed
qed

theorem add_state_rebinds_witness:
  "sc_is_state (ex_classes 0)
   \<and> states (ex_store do_command (Some 3) None) ''s1'' = Some 0
   \<and> state (ex_store do_command (Some 3) None) = Some 0
   \<and> length (heap (ex_store do_command (Some 3) None)) = 2
   \<and> fst (add_state ex_classes 0 [do_command ''C2'', do_command ''C3''] False
            (ex_store do_command (Some 3) None)) = Inr ()
   \<and> states (snd (add_state ex_classes 0 [do_command ''C2'', do_command ''C3''] False
            (ex_store do_command (Some 3) None))) ''s1'' = Some 2
   \<and> state (snd (add_state ex_classes 0 [do_command ''C2'', do_command ''C3''] False
            (ex_store do_command (Some 3) None))) = Some 0
   \<and> states (snd (add_state ex_classes 0 [do_command ''C2'', do_command ''C3''] False
            (ex_store do_command (Some 3) None))) ''s2'' = Some 1"
proof -
  let ?w = "ex_store do_command (Some 3) None"
  let ?cmds = "[do_command ''C2'', do_command ''C3'']"
  let ?so = "snd (import_commands S1 ?cmds (State_init 0 []))"
  have h1: "sc_is_state (ex_classes 0)" by (simp add: ex_classes_def S1_def)
  have nm: "lower (sc_name (ex_classes 0)) = ''s1''" by (simp add: ex_classes_def S1_def lower_ex)
  have h2: "states ?w (lower (sc_name (ex_classes 0))) = Some 0"
    by (simp add: nm ex_store_fields)
  have h3: "0 < length (heap ?w)" by (simp add: ex_store_fields)
  have sp: "state_params ?w = []" by (simp add: model_defs ex_defs)
  have h4: "import_commands (ex_classes 0) ?cmds (State_init 0 (state_params ?w)) = (Inr (), ?so)"
    unfolding sp by (simp add: model_defs ex_defs)
  have inj: "\<forall>n. states ?w n = Some 0 \<longrightarrow> n = lower (sc_name (ex_classes 0))"
    by (simp add: nm ex_store_fields)
  have st: "state ?w = Some 0" by (simp add: ex_store_fields)
  from add_state_rebinds [of ex_classes 0 ?w 0 ?cmds ?so False, OF h1 h2 h3 h4] obtain w' where
    w': "add_state ex_classes 0 ?cmds False ?w = (Inr (), w')"
      "states w' (lower (sc_name (ex_classes 0))) = Some (length (heap ?w))"
      "state w' = state ?w"
      "\<forall>n. n \<noteq> lower (sc_name (ex_classes 0)) \<longrightarrow> states w' n = states ?w n"
    by auto
  from w'(4) have "states w' ''s2'' = states ?w ''s2''" by (simp add: nm)
  with w'(1,2,3) h1 st show ?thesis
    by (simp add: nm ex_store_fields)
qed

subsection \<open>The step calls \<^verbatim>\<open>do\<close>, not \<^verbatim>\<open>execute\<close>\<close>

text \<open>
  Claim C1, at the docstring's own example. The commands there define \<^verbatim>\<open>execute\<close>, as the
  docstring of \<^verbatim>\<open>Command\<close> asks; \<^verbatim>\<open>_next_step\<close> calls the method \<^verbatim>\<open>do\<close>, which no class
  of the module defines. In the first step (random value 0, command \<^verbatim>\<open>c2\<close>) the pre-hook
  runs and then the step raises \<^verbatim>\<open>AttributeError\<close>: \<^verbatim>\<open>execute\<close> is never called, the
  accumulator stays as it was and the post-hook does not run.
\<close>

theorem docstring_step_raises:
  "cc_execute (doc_command ''C2'') PNone = Inr PNone
   \<and> next_step ex_classes 0 (ex_store doc_command None (Some 10)) =
     (Inl AttributeError, ex_store doc_command None (Some 10),
      [Chose 0 ''c2'', Hook 0 ''before_c2''])"
  by (simp add: model_defs ex_defs)

subsection \<open>Configuration checks of \<^verbatim>\<open>drive_machine\<close>\<close>

lemma one_state_store_fields:
  "nexec (one_state_store c n d) = n" "duration (one_state_store c n d) = d"
  "state (one_state_store 2 n d) = Some 0" "state (one_state_store 3 n d) = Some 0"
  "state_ret (one_state_store c n d) = PNone"
  by (simp_all add: model_defs ex_defs)

lemma Plain_step:
  "next_step ex_classes 0 (one_state_store 2 n d) =
     (Inr (), (one_state_store 2 n d)\<lparr>state_ret := PInt 1\<rparr>,
      [Chose 0 ''c1'', Do 0 ''c1'' PNone])"
  by (simp add: model_defs ex_defs)

text \<open>
  Claim C2, as the code has it. With neither \<^verbatim>\<open>nexec\<close> nor \<^verbatim>\<open>duration\<close> given,
  \<^verbatim>\<open>drive_machine\<close> raises \<^verbatim>\<open>ValueError\<close>; with one of them given and no current state it
  raises \<^verbatim>\<open>NotInitializedError\<close>; in both cases no step has run and the store is as it
  was. With both given and a current state assigned it raises no configuration error:
  the run is the duration-bounded one and \<^verbatim>\<open>nexec\<close> is ignored.
\<close>

theorem drive_machine_configuration:
  "(nexec w = None \<and> duration w = None \<longrightarrow>
      drive_machine \<Gamma> rnd clk w = Some (Inl ValueError, w, []))
   \<and> ((nexec w \<noteq> None \<or> duration w \<noteq> None) \<and> state w = None \<longrightarrow>
      drive_machine \<Gamma> rnd clk w = Some (Inl NotInitializedError, w, []))
   \<and> (nexec w \<noteq> None \<and> duration w \<noteq> None \<and> state w \<noteq> None \<longrightarrow>
      drive_machine \<Gamma> rnd clk w = drive_time_machine \<Gamma> rnd clk w)"
  by (auto simp: drive_machine_def)

theorem drive_machine_configuration_witness:
  "drive_machine ex_classes (\<lambda>i. 0) (\<lambda>i. 2 * real i) (DFA_init None None []) =
     Some (Inl ValueError, DFA_init None None [], [])
   \<and> drive_machine ex_classes (\<lambda>i. 0) (\<lambda>i. 2 * real i) (DFA_init (Some 5) None []) =
     Some (Inl NotInitializedError, DFA_init (Some 5) None [], [])
   \<and> drive_machine ex_classes (\<lambda>i. 0) (\<lambda>i. 2 * real i) (one_state_store 2 (Some 5) (Some 1)) =
     drive_time_machine ex_classes (\<lambda>i. 0) (\<lambda>i. 2 * real i) (one_state_store 2 (Some 5) (Some 1))"
proof -
  let ?w0 = "DFA_init None None [] :: real store"
  let ?w5 = "DFA_init (Some 5) None [] :: real store"
  have a: "nexec ?w0 = None \<and> duration ?w0 = None"
    by (simp add: DFA_init_def)
  have b: "(nexec ?w5 \<noteq> None \<or> duration ?w5 \<noteq> None) \<and> state ?w5 = None"
    by (simp add: DFA_init_def)
  have c: "nexec (one_state_store 2 (Some 5) (Some 1)) \<noteq> None
      \<and> duration (one_state_store 2 (Some 5) (Some 1)) \<noteq> None
      \<and> state (one_state_store 2 (Some 5) (Some 1)) \<noteq> None"
    by (simp add: one_state_store_fields)
  from a b c
    drive_machine_configuration [of ?w0 ex_classes "\<lambda>i. 0" "\<lambda>i. 2 * real i"]
    drive_machine_configuration [of ?w5 ex_classes "\<lambda>i. 0" "\<lambda>i. 2 * real i"]
    drive_machine_configuration [of "one_state_store 2 (Some 5) (Some 1)" ex_classes "\<lambda>i. 0" "\<lambda>i. 2 * real i"]
  show ?thesis by blast
qed

text \<open>
  The claim as the specification states it fails: with \<^verbatim>\<open>nexec = 5\<close>, \<^verbatim>\<open>duration = 1\<close> and
  a start state, on a clock that advances by 2 per step, the run executes one step and
  returns normally.
\<close>

theorem both_limits_run_counterexample:
  "nexec (one_state_store 2 (Some 5) (Some 1)) = Some 5
   \<and> duration (one_state_store 2 (Some 5) (Some 1)) = Some 1
   \<and> state (one_state_store 2 (Some 5) (Some 1)) = Some 0
   \<and> drive_machine ex_classes (\<lambda>i. 0) (\<lambda>i. 2 * real i) (one_state_store 2 (Some 5) (Some 1)) =
       Some (Inr (), (one_state_store 2 (Some 5) (Some 1))\<lparr>state_ret := PInt 1\<rparr>,
             [[Chose 0 ''c1'', Do 0 ''c1'' PNone]])"
proof -
  let ?w = "one_state_store 2 (Some 5) (Some 1)"
  have "drive_time_loop ex_classes (\<lambda>i. 0) (\<lambda>i. 2 * real i) 0 0 ?w [] =
       Some (Inr (), ?w\<lparr>state_ret := PInt 1\<rparr>, [[Chose 0 ''c1'', Do 0 ''c1'' PNone]])"
    apply (subst drive_time_loop.simps)
    apply (simp add: one_state_store_fields lt_duration_def Plain_step)
    apply (subst drive_time_loop.simps)
    apply (simp add: one_state_store_fields lt_duration_def)
    done
  then show ?thesis
    by (simp add: drive_machine_def drive_time_machine_def one_state_store_fields)
qed

subsection \<open>The count-bounded run\<close>

lemma drive_counter_loop_steps:
  assumes "\<forall>i. c \<le> i \<and> i < n \<longrightarrow> lt_nexec (int i) (nexec (ws i))
              \<and> next_step \<Gamma> (rnd i) (ws i) = (Inr (), ws (Suc i), ts i)"
    and "c \<le> n"
  shows "drive_counter_loop \<Gamma> rnd c (ws c) tr
           = drive_counter_loop \<Gamma> rnd n (ws n) (tr @ map ts [c..<n])"
  using assms
proof (induction "n - c" arbitrary: c tr)
  case 0
  then show ?case by simp
next
  case (Suc k)
  then have less: "c < n" by simp
  with Suc.prems(1) have lt: "lt_nexec (int c) (nexec (ws c))"
    and st: "next_step \<Gamma> (rnd c) (ws c) = (Inr (), ws (Suc c), ts c)"
    by auto
  have k: "k = n - Suc c" using Suc.hyps(2) by simp
  have rest: "\<forall>i. Suc c \<le> i \<and> i < n \<longrightarrow> lt_nexec (int i) (nexec (ws i))
              \<and> next_step \<Gamma> (rnd i) (ws i) = (Inr (), ws (Suc i), ts i)"
    using Suc.prems(1) by simp
  have le: "Suc c \<le> n" using less by simp
  have "drive_counter_loop \<Gamma> rnd c (ws c) tr
          = drive_counter_loop \<Gamma> rnd (Suc c) (ws (Suc c)) (tr @ [ts c])"
    by (subst drive_counter_loop.simps) (simp add: lt st)
  also have "\<dots> = drive_counter_loop \<Gamma> rnd n (ws n) ((tr @ [ts c]) @ map ts [Suc c..<n])"
    by (rule Suc.hyps(1) [OF k rest le])
  also have "(tr @ [ts c]) @ map ts [Suc c..<n] = tr @ map ts [c..<n]"
    using less by (simp add: upt_conv_Cons)
  finally show ?case .
qed

lemma drive_counter_stop:
  "\<not> lt_nexec (int n) (nexec w) \<Longrightarrow> drive_counter_loop \<Gamma> rnd n w tr = Some (Inr (), w, tr)"
  by (subst drive_counter_loop.simps) simp

lemma drive_counter_raise:
  "lt_nexec (int n) (nexec w) \<Longrightarrow> next_step \<Gamma> (rnd n) w = (Inl e, w', t) \<Longrightarrow>
     drive_counter_loop \<Gamma> rnd n w tr = Some (Inl e, w', tr @ [t])"
  by (subst drive_counter_loop.simps) simp

lemma Plain_step_at:
  "next_step ex_classes 0 ((one_state_store 2 n d)\<lparr>state_ret := v\<rparr>) =
     (Inr (), (one_state_store 2 n d)\<lparr>state_ret := (case v of PInt k \<Rightarrow> PInt (k + 1) | _ \<Rightarrow> PInt 1)\<rparr>,
      [Chose 0 ''c1'', Do 0 ''c1'' v])"
  by (cases v) (simp_all add: model_defs ex_defs)

lemma Cut_step:
  "next_step ex_classes 0 (one_state_store 3 n d) =
     (Inr (), (one_state_store 3 n d)\<lparr>nexec := Some 1, state_ret := PInt 1\<rparr>,
      [Chose 0 ''c1'', Do 0 ''c1'' PNone, Hook 0 ''after_c1''])"
  by (simp add: model_defs ex_defs)

text \<open>
  Claim C3, as the code has it. Take a count-bounded run: \<^verbatim>\<open>nexec = N\<close>, no duration, a
  start state assigned. \<open>ws i\<close> is the store before step \<open>i\<close> (\<open>ws 0\<close> the initial one) and
  \<open>ts i\<close> the log of step \<open>i\<close>.
  \<^item> If each of the first \<open>N\<close> steps returns normally and leaves \<^verbatim>\<open>nexec\<close> at \<open>N\<close>, the run
    returns normally after exactly these \<open>N\<close> steps (none for a negative \<open>N\<close>): its store
    is the one the last step left and its log is theirs.
  \<^item> The loop condition \<^verbatim>\<open>count < self.nexec\<close> reads the attribute before every step: in
    general the run goes on as long as the count is below the value \<^verbatim>\<open>nexec\<close> has in the
    store at that moment, and returns after \<open>n\<close> steps at the first \<open>n\<close> that is not.
  \<^item> A step that raises ends the run at once, with its error.
\<close>

theorem drive_counter_exact:
  assumes "nexec w = Some N" and "duration w = None" and "state w \<noteq> None" and "ws 0 = w"
  shows "((\<forall>i<nat N. next_step \<Gamma> (rnd i) (ws i) = (Inr (), ws (Suc i), ts i)
                      \<and> nexec (ws (Suc i)) = Some N)
          \<longrightarrow> drive_machine \<Gamma> rnd clk w = Some (Inr (), ws (nat N), map ts [0..<nat N]))
       \<and> ((\<forall>i<n. lt_nexec (int i) (nexec (ws i))
                   \<and> next_step \<Gamma> (rnd i) (ws i) = (Inr (), ws (Suc i), ts i))
            \<and> \<not> lt_nexec (int n) (nexec (ws n))
          \<longrightarrow> drive_machine \<Gamma> rnd clk w = Some (Inr (), ws n, map ts [0..<n]))
       \<and> ((\<forall>i<n. lt_nexec (int i) (nexec (ws i))
                   \<and> next_step \<Gamma> (rnd i) (ws i) = (Inr (), ws (Suc i), ts i))
            \<and> lt_nexec (int n) (nexec (ws n))
            \<and> next_step \<Gamma> (rnd n) (ws n) = (Inl e, w', t)
          \<longrightarrow> drive_machine \<Gamma> rnd clk w = Some (Inl e, w', map ts [0..<n] @ [t]))"
proof -
  have dm: "drive_machine \<Gamma> rnd clk w = drive_counter_loop \<Gamma> rnd 0 (ws 0) []"
    using assms by (auto simp: drive_machine_def drive_counter_machine_def)
  have run: "drive_machine \<Gamma> rnd clk w = drive_counter_loop \<Gamma> rnd m (ws m) (map ts [0..<m])"
    if "\<forall>i<m. lt_nexec (int i) (nexec (ws i))
                   \<and> next_step \<Gamma> (rnd i) (ws i) = (Inr (), ws (Suc i), ts i)" for m
    using drive_counter_loop_steps [of 0 m ws \<Gamma> rnd ts "[]"] that by (simp add: dm)
  have B: "drive_machine \<Gamma> rnd clk w = Some (Inr (), ws m, map ts [0..<m])"
    if "\<forall>i<m. lt_nexec (int i) (nexec (ws i))
                   \<and> next_step \<Gamma> (rnd i) (ws i) = (Inr (), ws (Suc i), ts i)"
      and "\<not> lt_nexec (int m) (nexec (ws m))" for m
    using run [OF that(1)] drive_counter_stop [OF that(2)] by simp
  have A: "drive_machine \<Gamma> rnd clk w = Some (Inr (), ws (nat N), map ts [0..<nat N])"
    if h: "\<forall>i<nat N. next_step \<Gamma> (rnd i) (ws i) = (Inr (), ws (Suc i), ts i)
                      \<and> nexec (ws (Suc i)) = Some N"
  proof -
    have same: "nexec (ws i) = Some N" if "i \<le> nat N" for i
    proof (cases i)
      case 0
      then show ?thesis using assms(1,4) by simp
    next
      case (Suc j)
      with that h show ?thesis by simp
    qed
    have "\<forall>i<nat N. lt_nexec (int i) (nexec (ws i))
                   \<and> next_step \<Gamma> (rnd i) (ws i) = (Inr (), ws (Suc i), ts i)"
      using h same by (auto simp: lt_nexec_def)
    moreover have "\<not> lt_nexec (int (nat N)) (nexec (ws (nat N)))"
      using same [of "nat N"] by (simp add: lt_nexec_def)
    ultimately show ?thesis by (rule B)
  qed
  have C: "drive_machine \<Gamma> rnd clk w = Some (Inl e, w', map ts [0..<n] @ [t])"
    if "\<forall>i<n. lt_nexec (int i) (nexec (ws i))
                   \<and> next_step \<Gamma> (rnd i) (ws i) = (Inr (), ws (Suc i), ts i)"
      and "lt_nexec (int n) (nexec (ws n))"
      and "next_step \<Gamma> (rnd n) (ws n) = (Inl e, w', t)"
    using run [OF that(1)]
      drive_counter_raise [where rnd = rnd and n = n and w = "ws n", OF that(2,3)]
    by simp
  from A B [of n] C show ?thesis by blast
qed

theorem drive_counter_exact_witness:
  "nexec (one_state_store 2 (Some 3) None) = Some 3
   \<and> duration (one_state_store 2 (Some 3) None) = None
   \<and> state (one_state_store 2 (Some 3) None) = Some 0
   \<and> drive_machine ex_classes (\<lambda>i. 0) (\<lambda>i. 0) (one_state_store 2 (Some 3) None)
       = Some (Inr (), (one_state_store 2 (Some 3) None)\<lparr>state_ret := PInt 3\<rparr>,
               [[Chose 0 ''c1'', Do 0 ''c1'' PNone],
                [Chose 0 ''c1'', Do 0 ''c1'' (PInt 1)],
                [Chose 0 ''c1'', Do 0 ''c1'' (PInt 2)]])"
proof -
  let ?w = "one_state_store 2 (Some 3) None"
  let ?ws = "\<lambda>i. ?w\<lparr>state_ret := (if i = 0 then PNone else PInt (int i))\<rparr>"
  let ?ts = "\<lambda>i. [Chose 0 ''c1'', Do 0 ''c1'' (if i = 0 then PNone else PInt (int i))]"
  have h1: "nexec ?w = Some 3" and h2: "duration ?w = None" and h3: "state ?w \<noteq> None"
    and h3': "state ?w = Some 0"
    by (simp_all add: one_state_store_fields)
  have h4: "?ws 0 = ?w" by (simp add: one_state_store_fields [symmetric])
  have steps: "\<forall>i<nat 3. next_step ex_classes ((\<lambda>i. 0) i) (?ws i) = (Inr (), ?ws (Suc i), ?ts i)
                      \<and> nexec (?ws (Suc i)) = Some 3"
    by (simp add: Plain_step_at one_state_store_fields)
  from drive_counter_exact [where w = ?w and N = 3 and ws = ?ws and \<Gamma> = ex_classes
      and rnd = "\<lambda>i. 0" and ts = ?ts and clk = "\<lambda>i. 0", OF h1 h2 h3 h4] steps
  have "drive_machine ex_classes (\<lambda>i. 0) (\<lambda>i. 0) ?w = Some (Inr (), ?ws (nat 3), map ?ts [0..<nat 3])"
    by blast
  then have "drive_machine ex_classes (\<lambda>i. 0) (\<lambda>i. 0) ?w
       = Some (Inr (), ?w\<lparr>state_ret := PInt 3\<rparr>,
               [[Chose 0 ''c1'', Do 0 ''c1'' PNone],
                [Chose 0 ''c1'', Do 0 ''c1'' (PInt 1)],
                [Chose 0 ''c1'', Do 0 ''c1'' (PInt 2)]])"
    by (simp add: upt_conv_Cons)
  with h1 h2 h3' show ?thesis by blast
qed

text \<open>
  The claim as the specification states it fails: \<^verbatim>\<open>nexec\<close> is re-read during the run.
  A state whose post-hook assigns \<^verbatim>\<open>self.dfa.nexec = 1\<close>, run with \<^verbatim>\<open>nexec = 3\<close>, executes
  one step, not three.
\<close>

theorem nexec_reread_counterexample:
  "nexec (one_state_store 3 (Some 3) None) = Some 3
   \<and> duration (one_state_store 3 (Some 3) None) = None
   \<and> state (one_state_store 3 (Some 3) None) = Some 0
   \<and> drive_machine ex_classes (\<lambda>i. 0) (\<lambda>i. 0) (one_state_store 3 (Some 3) None) =
       Some (Inr (), (one_state_store 3 (Some 3) None)\<lparr>nexec := Some 1, state_ret := PInt 1\<rparr>,
             [[Chose 0 ''c1'', Do 0 ''c1'' PNone, Hook 0 ''after_c1'']])"
proof -
  let ?w = "one_state_store 3 (Some 3) None"
  have "drive_counter_loop ex_classes (\<lambda>i. 0) 0 ?w [] =
       Some (Inr (), ?w\<lparr>nexec := Some 1, state_ret := PInt 1\<rparr>,
             [[Chose 0 ''c1'', Do 0 ''c1'' PNone, Hook 0 ''after_c1'']])"
    apply (subst drive_counter_loop.simps)
    apply (simp add: one_state_store_fields lt_nexec_def Cut_step)
    apply (subst drive_counter_loop.simps)
    apply (simp add: lt_nexec_def)
    done
  then show ?thesis
    by (simp add: drive_machine_def drive_counter_machine_def one_state_store_fields)
qed

subsection \<open>The duration-bounded run\<close>

lemma drive_time_loop_steps:
  assumes "\<forall>i. c \<le> i \<and> i < n \<longrightarrow> lt_duration (clk i - b) (duration (ws i))
              \<and> next_step \<Gamma> (rnd i) (ws i) = (Inr (), ws (Suc i), ts i)"
    and "c \<le> n" and "length tr = c"
  shows "drive_time_loop \<Gamma> rnd clk b (clk c) (ws c) tr
           = drive_time_loop \<Gamma> rnd clk b (clk n) (ws n) (tr @ map ts [c..<n])"
  using assms
proof (induction "n - c" arbitrary: c tr)
  case 0
  then show ?case by simp
next
  case (Suc k)
  then have less: "c < n" by simp
  with Suc.prems(1) have lt: "lt_duration (clk c - b) (duration (ws c))"
    and st: "next_step \<Gamma> (rnd c) (ws c) = (Inr (), ws (Suc c), ts c)"
    by auto
  have k: "k = n - Suc c" using Suc.hyps(2) by simp
  have rest: "\<forall>i. Suc c \<le> i \<and> i < n \<longrightarrow> lt_duration (clk i - b) (duration (ws i))
              \<and> next_step \<Gamma> (rnd i) (ws i) = (Inr (), ws (Suc i), ts i)"
    using Suc.prems(1) by simp
  have le: "Suc c \<le> n" using less by simp
  have len: "length (tr @ [ts c]) = Suc c" using Suc.prems(3) by simp
  have "drive_time_loop \<Gamma> rnd clk b (clk c) (ws c) tr
          = drive_time_loop \<Gamma> rnd clk b (clk (Suc c)) (ws (Suc c)) (tr @ [ts c])"
    by (subst drive_time_loop.simps) (simp add: lt st Suc.prems(3))
  also have "\<dots> = drive_time_loop \<Gamma> rnd clk b (clk n) (ws n) ((tr @ [ts c]) @ map ts [Suc c..<n])"
    by (rule Suc.hyps(1) [OF k rest le len])
  also have "(tr @ [ts c]) @ map ts [Suc c..<n] = tr @ map ts [c..<n]"
    using less by (simp add: upt_conv_Cons)
  finally show ?case .
qed

lemma drive_time_stop:
  "\<not> lt_duration (e_at - b) (duration w) \<Longrightarrow>
     drive_time_loop \<Gamma> rnd clk b e_at w tr = Some (Inr (), w, tr)"
  by (subst drive_time_loop.simps) simp

lemma drive_time_raise:
  "lt_duration (e_at - b) (duration w) \<Longrightarrow> next_step \<Gamma> (rnd (length tr)) w = (Inl e, w', t) \<Longrightarrow>
     drive_time_loop \<Gamma> rnd clk b e_at w tr = Some (Inl e, w', tr @ [t])"
  by (subst drive_time_loop.simps) simp

lemma raising_store_fields:
  "nexec (raising_store n d) = n" "duration (raising_store n d) = d"
  "state (raising_store n d) = Some 0"
  by (simp_all add: raising_store_def raising_command_def model_defs ex_defs)

lemma raising_step:
  "next_step ex_classes 0 (raising_store n d) =
     (Inl (UserError ''boom''), raising_store n d, [Chose 0 ''c1'', Do 0 ''c1'' PNone])"
  by (simp add: raising_store_def raising_command_def model_defs ex_defs)

lemma hurry_store_fields:
  "nexec (hurry_store n d) = n" "duration (hurry_store n d) = d"
  "state (hurry_store n d) = Some 0"
  by (simp_all add: hurry_store_def Hurry_def model_defs ex_defs)

lemma hurry_step:
  "next_step (\<lambda>c. Hurry) 0 (hurry_store n d) =
     (Inr (), (hurry_store n d)\<lparr>duration := Some 0, state_ret := PInt 1\<rparr>,
      [Chose 0 ''c1'', Do 0 ''c1'' PNone, Hook 0 ''after_c1''])"
  by (simp add: hurry_store_def Hurry_def model_defs ex_defs)

text \<open>
  Claim C9, as the code has it. Take a duration-bounded run: \<^verbatim>\<open>duration = D\<close> with
  \<open>0 < D\<close>, a start state assigned, and a first clock reading \<open>clk 0\<close> that is finite
  (\<open>clk 0 - clk 0 = 0\<close>). \<open>ws i\<close> is the store before step \<open>i\<close> and \<open>ts i\<close> the log of step \<open>i\<close>;
  the elapsed time tested before step \<open>i\<close> is \<open>clk i - clk 0\<close>, in the machine's subtraction.
  \<^item> The clock is read once before the loop, for \<^verbatim>\<open>begin_at\<close> and \<^verbatim>\<open>end_at\<close> alike, so the
    first test passes and a first step is always begun; the clock is read again
    (\<open>clk 1\<close>) only when that step has returned, and a step that raises ends the run.
  \<^item> If every step returns normally and leaves \<^verbatim>\<open>duration\<close> at \<open>D\<close>, and \<open>n\<close> is the first
    reading at which the elapsed time is not below \<open>D\<close>, the run returns normally after
    exactly the steps \<open>0, ..., n - 1\<close>: its store is the one the last step left and its
    log is theirs. There is at least one step, their number is fixed by the clock and
    not in advance, and the elapsed time read before the last step was still below \<open>D\<close>:
    the run overruns \<open>D\<close> within its last step only.
  \<^item> The loop condition reads \<^verbatim>\<open>self.duration\<close> at every test: in general the run goes on
    as long as the elapsed time is below the value \<^verbatim>\<open>duration\<close> has in the store at that
    moment.
  \<^item> A step that raises ends the run at once, with its error.
\<close>

theorem drive_time_bounded:
  fixes clk :: "nat \<Rightarrow> 'a::{linorder,zero,plus,times,minus}"
  assumes "duration w = Some D" and "0 < D" and "clk 0 - clk 0 = 0"
    and "state w \<noteq> None" and "ws 0 = w"
  shows "drive_machine \<Gamma> rnd clk w =
           (case next_step \<Gamma> (rnd 0) w of
              (Inl e, w', t) \<Rightarrow> Some (Inl e, w', [t])
            | (Inr u, w', t) \<Rightarrow> drive_time_loop \<Gamma> rnd clk (clk 0) (clk 1) w' [t])
       \<and> ((\<forall>i<n. clk i - clk 0 < D
                   \<and> next_step \<Gamma> (rnd i) (ws i) = (Inr (), ws (Suc i), ts i)
                   \<and> duration (ws (Suc i)) = Some D)
            \<and> \<not> clk n - clk 0 < D
          \<longrightarrow> drive_machine \<Gamma> rnd clk w = Some (Inr (), ws n, map ts [0..<n])
              \<and> 1 \<le> n \<and> clk (n - 1) - clk 0 < D)
       \<and> ((\<forall>i<n. lt_duration (clk i - clk 0) (duration (ws i))
                   \<and> next_step \<Gamma> (rnd i) (ws i) = (Inr (), ws (Suc i), ts i))
            \<and> \<not> lt_duration (clk n - clk 0) (duration (ws n))
          \<longrightarrow> drive_machine \<Gamma> rnd clk w = Some (Inr (), ws n, map ts [0..<n]))
       \<and> ((\<forall>i<n. lt_duration (clk i - clk 0) (duration (ws i))
                   \<and> next_step \<Gamma> (rnd i) (ws i) = (Inr (), ws (Suc i), ts i))
            \<and> lt_duration (clk n - clk 0) (duration (ws n))
            \<and> next_step \<Gamma> (rnd n) (ws n) = (Inl e, w', t)
          \<longrightarrow> drive_machine \<Gamma> rnd clk w = Some (Inl e, w', map ts [0..<n] @ [t]))"
proof -
  have dm: "drive_machine \<Gamma> rnd clk w = drive_time_loop \<Gamma> rnd clk (clk 0) (clk 0) (ws 0) []"
    using assms by (auto simp: drive_machine_def drive_time_machine_def)
  have "lt_duration (clk 0 - clk 0) (duration w)"
    using assms(1,2,3) by (simp add: lt_duration_def)
  then have first: "drive_machine \<Gamma> rnd clk w =
           (case next_step \<Gamma> (rnd 0) w of
              (Inl e, w', t) \<Rightarrow> Some (Inl e, w', [t])
            | (Inr u, w', t) \<Rightarrow> drive_time_loop \<Gamma> rnd clk (clk 0) (clk 1) w' [t])"
    unfolding dm assms(5)
    by (subst drive_time_loop.simps) (simp split: prod.splits sum.splits)
  have run: "drive_machine \<Gamma> rnd clk w
               = drive_time_loop \<Gamma> rnd clk (clk 0) (clk m) (ws m) (map ts [0..<m])"
    if "\<forall>i<m. lt_duration (clk i - clk 0) (duration (ws i))
                   \<and> next_step \<Gamma> (rnd i) (ws i) = (Inr (), ws (Suc i), ts i)" for m
    using drive_time_loop_steps [where c = 0 and n = m and ws = ws and \<Gamma> = \<Gamma> and rnd = rnd
        and ts = ts and tr = "[]" and clk = clk and b = "clk 0"] that
    by (simp add: dm)
  have B: "drive_machine \<Gamma> rnd clk w = Some (Inr (), ws m, map ts [0..<m])"
    if "\<forall>i<m. lt_duration (clk i - clk 0) (duration (ws i))
                   \<and> next_step \<Gamma> (rnd i) (ws i) = (Inr (), ws (Suc i), ts i)"
      and "\<not> lt_duration (clk m - clk 0) (duration (ws m))" for m
    using run [OF that(1)] drive_time_stop [OF that(2)] by simp
  have A: "drive_machine \<Gamma> rnd clk w = Some (Inr (), ws n, map ts [0..<n])
              \<and> 1 \<le> n \<and> clk (n - 1) - clk 0 < D"
    if h: "\<forall>i<n. clk i - clk 0 < D
                   \<and> next_step \<Gamma> (rnd i) (ws i) = (Inr (), ws (Suc i), ts i)
                   \<and> duration (ws (Suc i)) = Some D"
      and stop: "\<not> clk n - clk 0 < D"
  proof -
    have same: "duration (ws i) = Some D" if "i \<le> n" for i
    proof (cases i)
      case 0
      then show ?thesis using assms(1,5) by simp
    next
      case (Suc j)
      with that h show ?thesis by simp
    qed
    have "\<forall>i<n. lt_duration (clk i - clk 0) (duration (ws i))
                   \<and> next_step \<Gamma> (rnd i) (ws i) = (Inr (), ws (Suc i), ts i)"
      using h same by (auto simp: lt_duration_def)
    moreover have "\<not> lt_duration (clk n - clk 0) (duration (ws n))"
      using same [of n] stop by (simp add: lt_duration_def)
    ultimately have res: "drive_machine \<Gamma> rnd clk w = Some (Inr (), ws n, map ts [0..<n])"
      by (rule B)
    have n: "1 \<le> n"
    proof (rule ccontr)
      assume "\<not> 1 \<le> n"
      then have "n = 0" by simp
      with stop assms(2,3) show False by simp
    qed
    then have "n - 1 < n" by simp
    with h have "clk (n - 1) - clk 0 < D" by blast
    with res n show ?thesis by blast
  qed
  have C: "drive_machine \<Gamma> rnd clk w = Some (Inl e, w', map ts [0..<n] @ [t])"
    if "\<forall>i<n. lt_duration (clk i - clk 0) (duration (ws i))
                   \<and> next_step \<Gamma> (rnd i) (ws i) = (Inr (), ws (Suc i), ts i)"
      and "lt_duration (clk n - clk 0) (duration (ws n))"
      and "next_step \<Gamma> (rnd n) (ws n) = (Inl e, w', t)"
  proof -
    have "next_step \<Gamma> (rnd (length (map ts [0..<n]))) (ws n) = (Inl e, w', t)"
      using that(3) by simp
    from run [OF that(1)]
      drive_time_raise [where rnd = rnd and w = "ws n" and tr = "map ts [0..<n]", OF that(2) this]
    show ?thesis by simp
  qed
  from first A B [of n] C show ?thesis by blast
qed

theorem drive_time_bounded_witness:
  "duration (one_state_store 2 None (Some 1)) = Some 1
   \<and> state (one_state_store 2 None (Some 1)) = Some 0
   \<and> real 1 / 2 - real 0 / 2 < 1
   \<and> \<not> real 2 / 2 - real 0 / 2 < 1
   \<and> drive_machine ex_classes (\<lambda>i. 0) (\<lambda>i. real i / 2) (one_state_store 2 None (Some 1))
       = Some (Inr (), (one_state_store 2 None (Some 1))\<lparr>state_ret := PInt 2\<rparr>,
               [[Chose 0 ''c1'', Do 0 ''c1'' PNone],
                [Chose 0 ''c1'', Do 0 ''c1'' (PInt 1)]])"
proof -
  let ?w = "one_state_store 2 None (Some 1)"
  let ?ws = "\<lambda>i. ?w\<lparr>state_ret := (if i = 0 then PNone else PInt (int i))\<rparr>"
  let ?ts = "\<lambda>i. [Chose 0 ''c1'', Do 0 ''c1'' (if i = 0 then PNone else PInt (int i))]"
  let ?clk = "\<lambda>i. real i / 2"
  have h1: "duration ?w = Some 1" and h4: "state ?w \<noteq> None" and h4': "state ?w = Some 0"
    by (simp_all add: one_state_store_fields)
  have h2: "(0::real) < 1" and h3: "?clk 0 - ?clk 0 = 0" by simp_all
  have h5: "?ws 0 = ?w" by (simp add: one_state_store_fields [symmetric])
  have below: "\<forall>i<2. ?clk i - ?clk 0 < 1"
  proof (intro allI impI)
    fix i :: nat assume "i < 2"
    then have "real i \<le> 1" by simp
    then show "?clk i - ?clk 0 < 1" by simp
  qed
  have steps: "\<forall>i<2. ?clk i - ?clk 0 < 1
                 \<and> next_step ex_classes ((\<lambda>i. 0) i) (?ws i) = (Inr (), ?ws (Suc i), ?ts i)
                 \<and> duration (?ws (Suc i)) = Some 1"
    using below by (simp add: Plain_step_at one_state_store_fields)
  have stop: "\<not> ?clk 2 - ?clk 0 < 1" by simp
  from drive_time_bounded [where w = ?w and D = 1 and clk = ?clk and ws = ?ws
      and \<Gamma> = ex_classes and rnd = "\<lambda>i. 0" and ts = ?ts and n = 2, OF h1 h2 h3 h4 h5] steps stop
  have "drive_machine ex_classes (\<lambda>i. 0) ?clk ?w = Some (Inr (), ?ws 2, map ?ts [0..<2])"
    by blast
  then have "drive_machine ex_classes (\<lambda>i. 0) ?clk ?w
       = Some (Inr (), ?w\<lparr>state_ret := PInt 2\<rparr>,
               [[Chose 0 ''c1'', Do 0 ''c1'' PNone],
                [Chose 0 ''c1'', Do 0 ''c1'' (PInt 1)]])"
    by (simp add: upt_conv_Cons)
  moreover have "real 1 / 2 - real 0 / 2 < 1" "\<not> real 2 / 2 - real 0 / 2 < 1" by simp_all
  ultimately show ?thesis using h1 h4' by blast
qed

text \<open>
  The claim as the specification states it fails, in two ways. A step once begun need
  not complete: with \<^verbatim>\<open>duration = 10\<close> and a command whose \<^verbatim>\<open>do\<close> raises, the first step
  raises and the run ends there, with no step completed and the duration not reached.
  And the run need not go on while the elapsed time is below \<open>D\<close>: with \<^verbatim>\<open>duration = 10\<close>,
  a clock that advances by 1 per step and a post-hook that assigns
  \<^verbatim>\<open>self.dfa.duration = 0\<close>, the run returns normally after one step, at elapsed time 1.
\<close>

theorem run_ends_below_duration_counterexample:
  "duration (raising_store None (Some 10)) = Some 10
   \<and> state (raising_store None (Some 10)) = Some 0
   \<and> drive_machine ex_classes (\<lambda>i. 0) (\<lambda>i. real i) (raising_store None (Some 10)) =
       Some (Inl (UserError ''boom''), raising_store None (Some 10),
             [[Chose 0 ''c1'', Do 0 ''c1'' PNone]])
   \<and> duration (hurry_store None (Some 10)) = Some 10
   \<and> state (hurry_store None (Some 10)) = Some 0
   \<and> drive_machine (\<lambda>c. Hurry) (\<lambda>i. 0) (\<lambda>i. real i) (hurry_store None (Some 10)) =
       Some (Inr (), (hurry_store None (Some 10))\<lparr>duration := Some 0, state_ret := PInt 1\<rparr>,
             [[Chose 0 ''c1'', Do 0 ''c1'' PNone, Hook 0 ''after_c1'']])
   \<and> real 1 - real 0 < 10"
proof -
  let ?w = "raising_store None (Some 10)"
  let ?v = "hurry_store None (Some 10)"
  have a: "drive_time_loop ex_classes (\<lambda>i. 0) (\<lambda>i. real i) 0 0 ?w [] =
       Some (Inl (UserError ''boom''), ?w, [[Chose 0 ''c1'', Do 0 ''c1'' PNone]])"
    apply (subst drive_time_loop.simps)
    apply (simp add: raising_store_fields lt_duration_def raising_step)
    done
  have b: "drive_time_loop (\<lambda>c. Hurry) (\<lambda>i. 0) (\<lambda>i. real i) 0 0 ?v [] =
       Some (Inr (), ?v\<lparr>duration := Some 0, state_ret := PInt 1\<rparr>,
             [[Chose 0 ''c1'', Do 0 ''c1'' PNone, Hook 0 ''after_c1'']])"
    apply (subst drive_time_loop.simps)
    apply (simp add: hurry_store_fields lt_duration_def hurry_step)
    apply (subst drive_time_loop.simps)
    apply (simp add: lt_duration_def)
    done
  from a b show ?thesis
    by (simp add: drive_machine_def drive_time_machine_def raising_store_fields hurry_store_fields)
qed

subsection \<open>A post-hook that switches the state\<close>

lemma next_step_chose:
  assumes "cur_state w = Some (s, so)"
  shows "case State_choose (\<Gamma> (so_class so)) so r of
           Inl e \<Rightarrow> next_step \<Gamma> r w = (Inl e, w, [])
         | Inr cn \<Rightarrow> cn \<in> set (map fst (sc_weight (\<Gamma> (so_class so))))
                    \<and> (\<exists>res w' t. next_step \<Gamma> r w = (res, w', Chose s cn # t))"
proof (cases "State_choose (\<Gamma> (so_class so)) so r")
  case (Inl e)
  with assms show ?thesis by (simp add: next_step_def)
next
  case (Inr cn)
  then have "cn \<in> set (map fst (sc_weight (\<Gamma> (so_class so))))"
    unfolding State_choose_def by (rule choose_loop_key)
  moreover have "\<exists>res w' t. next_step \<Gamma> r w = (res, w', Chose s cn # t)"
    using assms Inr by (auto simp: next_step_def Let_def split: prod.splits sum.splits)
  ultimately show ?thesis using Inr by simp
qed

text \<open>
  Claim C8. In a step, let the state instance \<open>s\<close> be current and choose \<open>cname\<close>; let the
  pre-hook, if there is one, return normally and leave \<open>s\<close> current (switching is for
  post-hooks); let the command's \<^verbatim>\<open>do\<close> return \<open>v\<close>; and let the post-hook of \<open>s\<close> for
  \<open>cname\<close> act as \<^verbatim>\<open>self.switch_state_to(X)\<close>, for a registered name \<open>X\<close> of the instance \<open>x\<close>.
  Then the step returns normally, everything in it was done on \<open>s\<close> (the choice, the
  command and the post-hook invoked are those of \<open>s\<close>), and it leaves \<open>x\<close> current. In the
  next step, whatever the random value, it is \<open>x\<close> that chooses: the step fails as the
  selection of \<open>x\<close> fails, or the name chosen is a key of the weight table of \<open>x\<close>.
\<close>

theorem post_hook_switch_next_step:
  assumes cur: "cur_state w = Some (s, so)"
    and ch: "State_choose (\<Gamma> (so_class so)) so r = Inr cname"
    and pre: "call_if_listed \<Gamma> (dir_state \<Gamma> so) (''before_'' @ cname) w = (Inr (), w1, t1)"
    and keep: "cur_state w1 = Some (s, so1)" "so_class so1 = so_class so"
    and cmd: "commands so1 cname = Some c" "cc_do (co_class c) = Some f"
      "f (state_ret w1) = Inr v"
    and post: "sc_attrs (\<Gamma> (so_class so)) (''after_'' @ cname) = Some h"
      "h s (w1\<lparr>state_ret := v\<rparr>) = switch_state_to X (w1\<lparr>state_ret := v\<rparr>)"
    and reg: "states w1 X = Some x" "x < length (heap w1)"
  shows "next_step \<Gamma> r w =
           (Inr (), w1\<lparr>state_ret := v, state := Some x\<rparr>,
            Chose s cname # t1 @ [Do s cname (state_ret w1), Hook s (''after_'' @ cname)])
         \<and> (\<forall>r'. case State_choose (\<Gamma> (so_class (heap w1 ! x))) (heap w1 ! x) r' of
                    Inl e \<Rightarrow> next_step \<Gamma> r' (w1\<lparr>state_ret := v, state := Some x\<rparr>)
                               = (Inl e, w1\<lparr>state_ret := v, state := Some x\<rparr>, [])
                  | Inr cn \<Rightarrow> cn \<in> set (map fst (sc_weight (\<Gamma> (so_class (heap w1 ! x)))))
                      \<and> (\<exists>res w' t. next_step \<Gamma> r' (w1\<lparr>state_ret := v, state := Some x\<rparr>)
                                       = (res, w', Chose x cn # t)))"
proof
  let ?w2 = "w1\<lparr>state_ret := v\<rparr>"
  have do: "call_do cname w1 = (Inr (), ?w2, [Do s cname (state_ret w1)])"
    using keep(1) cmd by (simp add: call_do_def)
  have cur2: "cur_state ?w2 = Some (s, so1)"
    using keep(1) by (simp add: cur_state_def split: option.splits if_splits)
  have listed: "dir_state \<Gamma> so (''after_'' @ cname)"
    using post(1) by (simp add: dir_state_def)
  have sw: "switch_state_to X ?w2 = (Inr (), ?w2\<lparr>state := Some x\<rparr>)"
    using reg(1) by (simp add: switch_state_to_def)
  have after: "call_if_listed \<Gamma> (dir_state \<Gamma> so) (''after_'' @ cname) ?w2
      = (Inr (), ?w2\<lparr>state := Some x\<rparr>, [Hook s (''after_'' @ cname)])"
    using listed cur2 keep(2) post sw by (simp add: call_if_listed_def getattr_call_def)
  show "next_step \<Gamma> r w =
           (Inr (), w1\<lparr>state_ret := v, state := Some x\<rparr>,
            Chose s cname # t1 @ [Do s cname (state_ret w1), Hook s (''after_'' @ cname)])"
    using cur ch pre do after by (simp add: next_step_def Let_def)
  have "cur_state (w1\<lparr>state_ret := v, state := Some x\<rparr>) = Some (x, heap w1 ! x)"
    using reg(2) by (simp add: cur_state_def)
  from next_step_chose [OF this]
  show "\<forall>r'. case State_choose (\<Gamma> (so_class (heap w1 ! x))) (heap w1 ! x) r' of
                    Inl e \<Rightarrow> next_step \<Gamma> r' (w1\<lparr>state_ret := v, state := Some x\<rparr>)
                               = (Inl e, w1\<lparr>state_ret := v, state := Some x\<rparr>, [])
                  | Inr cn \<Rightarrow> cn \<in> set (map fst (sc_weight (\<Gamma> (so_class (heap w1 ! x)))))
                      \<and> (\<exists>res w' t. next_step \<Gamma> r' (w1\<lparr>state_ret := v, state := Some x\<rparr>)
                                       = (res, w', Chose x cn # t))"
    by blast
qed

theorem post_hook_switch_next_step_witness:
  "state (ex_store do_command (Some 3) None) = Some 0
   \<and> states (ex_store do_command (Some 3) None) ''s2'' = Some 1
   \<and> sc_attrs (ex_classes 0) ''after_c2'' = Some (\<lambda>self. switch_state_to ''s2'')
   \<and> next_step ex_classes 0 (ex_store do_command (Some 3) None) =
       (Inr (), (ex_store do_command (Some 3) None)\<lparr>state_ret := PInt 1, state := Some 1\<rparr>,
        [Chose 0 ''c2'', Hook 0 ''before_c2'', Do 0 ''c2'' PNone, Hook 0 ''after_c2''])
   \<and> (\<exists>res w' t.
         next_step ex_classes 0
           ((ex_store do_command (Some 3) None)\<lparr>state_ret := PInt 1, state := Some 1\<rparr>)
         = (res, w', Chose 1 ''c1'' # t))"
proof -
  let ?w = "ex_store do_command (Some 3) None"
  let ?so = "heap ?w ! 0"
  let ?c = "(Command_init (do_command ''C2'') [])\<lparr>co_weight := Some 1\<rparr>"
  let ?h = "\<lambda>self :: addr. switch_state_to ''s2''"
  have st: "state ?w = Some 0" and reg: "states ?w ''s2'' = Some 1"
    and len: "1 < length (heap ?w)"
    by (simp_all add: ex_store_fields)
  have cur: "cur_state ?w = Some (0, ?so)"
    by (simp add: cur_state_def ex_store_fields)
  have cls: "so_class ?so = 0" by (simp add: model_defs ex_defs)
  have ch: "State_choose (ex_classes (so_class ?so)) ?so 0 = Inr ''c2''"
    by (simp add: model_defs ex_defs)
  have pre: "call_if_listed ex_classes (dir_state ex_classes ?so) (''before_'' @ ''c2'') ?w
      = (Inr (), ?w, [Hook 0 (''before_'' @ ''c2'')])"
    by (simp add: call_if_listed_def getattr_call_def dir_state_def cur cls
        ex_classes_def S1_def print_hook_def)
  have cmd: "commands ?so ''c2'' = Some ?c" by (simp add: model_defs ex_defs)
  have do: "cc_do (co_class ?c) = Some count_up" by (simp add: Command_init_def do_command_def)
  have ret: "count_up (state_ret ?w) = Inr (PInt 1)"
    by (simp add: ex_store_fields count_up_def)
  have post: "sc_attrs (ex_classes (so_class ?so)) (''after_'' @ ''c2'') = Some ?h"
    by (simp add: cls ex_classes_def S1_def)
  have post': "sc_attrs (ex_classes 0) ''after_c2'' = Some ?h"
    using post by (simp add: cls)
  have ch2: "State_choose (ex_classes (so_class (heap ?w ! 1))) (heap ?w ! 1) 0 = Inr ''c1''"
    by (simp add: model_defs ex_defs)
  from post_hook_switch_next_step [of ?w 0 ?so ex_classes 0 "''c2''" ?w "[Hook 0 (''before_'' @ ''c2'')]"
      ?so ?c count_up "PInt 1" ?h "''s2''" 1, OF cur ch pre cur refl cmd do ret post refl reg len]
  have step: "next_step ex_classes 0 ?w =
       (Inr (), ?w\<lparr>state_ret := PInt 1, state := Some 1\<rparr>,
        Chose 0 ''c2'' # [Hook 0 (''before_'' @ ''c2'')]
          @ [Do 0 ''c2'' (state_ret ?w), Hook 0 (''after_'' @ ''c2'')])"
    and nxt: "\<forall>r'. case State_choose (ex_classes (so_class (heap ?w ! 1))) (heap ?w ! 1) r' of
                    Inl e \<Rightarrow> next_step ex_classes r' (?w\<lparr>state_ret := PInt 1, state := Some 1\<rparr>)
                               = (Inl e, ?w\<lparr>state_ret := PInt 1, state := Some 1\<rparr>, [])
                  | Inr cn \<Rightarrow> cn \<in> set (map fst (sc_weight (ex_classes (so_class (heap ?w ! 1)))))
                      \<and> (\<exists>res w' t. next_step ex_classes r' (?w\<lparr>state_ret := PInt 1, state := Some 1\<rparr>)
                                       = (res, w', Chose 1 cn # t))"
    by blast+
  from nxt have "case State_choose (ex_classes (so_class (heap ?w ! 1))) (heap ?w ! 1) 0 of
                    Inl e \<Rightarrow> next_step ex_classes 0 (?w\<lparr>state_ret := PInt 1, state := Some 1\<rparr>)
                               = (Inl e, ?w\<lparr>state_ret := PInt 1, state := Some 1\<rparr>, [])
                  | Inr cn \<Rightarrow> cn \<in> set (map fst (sc_weight (ex_classes (so_class (heap ?w ! 1)))))
                      \<and> (\<exists>res w' t. next_step ex_classes 0 (?w\<lparr>state_ret := PInt 1, state := Some 1\<rparr>)
                                       = (res, w', Chose 1 cn # t))"
    by (rule spec)
  then have two: "\<exists>res w' t. next_step ex_classes 0 (?w\<lparr>state_ret := PInt 1, state := Some 1\<rparr>)
                                       = (res, w', Chose 1 ''c1'' # t)"
    unfolding ch2 by simp
  have one: "next_step ex_classes 0 ?w =
       (Inr (), ?w\<lparr>state_ret := PInt 1, state := Some 1\<rparr>,
        [Chose 0 ''c2'', Hook 0 ''before_c2'', Do 0 ''c2'' PNone, Hook 0 ''after_c2''])"
    using step by (simp add: ex_store_fields)
  from st reg post' one two show ?thesis by blast
qed

end
